theory Spec2Isabelle
  imports Complex_Main "HOL-Library.AList" "HOL-Library.Multiset"
    "HOL-Library.Char_ord" "HOL-Library.List_Lexorder"
begin

section \<open>The session engine of the reconstructive-memory file finder\<close>

text \<open>
  The development embeds \<^verbatim>\<open>backend/config.py\<close>, the clustering and follow-up
  helpers of \<^verbatim>\<open>backend/search.py\<close> and the \<^verbatim>\<open>Session\<close> class with its HTTP endpoints
  of \<^verbatim>\<open>backend/api.py\<close>.

  Python mutates a session in place, so an operation that raises leaves behind whatever
  it had already written. Every operation therefore returns the session it leaves,
  tagged with how it ended (\<open>Done\<close> or \<open>Raised\<close>).

  The external services are parameters, collected in the record \<open>oracles\<close>:
  the density clusterer (row normalisation and \<^verbatim>\<open>hdbscan.HDBSCAN.fit_predict\<close>),
  \<^verbatim>\<open>np.argsort\<close>, the dense embedder (which may raise), the floating-point cosine similarity, the three uses of
  the chat model (each may raise) and \<^verbatim>\<open>search_by_query\<close> as a whole (the query
  embeddings and the vector store's fused query; \<open>None\<close> when any of them raises).
  The session's \<^verbatim>\<open>created_at\<close> timestamp is left out and the fresh session id is an
  argument of \<open>start_search\<close>.
\<close>

subsection \<open>config.py\<close>

definition HDBSCAN_MIN_CLUSTER_SIZE :: nat where
  "HDBSCAN_MIN_CLUSTER_SIZE = 5"

definition MAX_CLUSTERS :: nat where
  "MAX_CLUSTERS = 4"

definition DIRECT_MATCH_THRESHOLD :: rat where
  "DIRECT_MATCH_THRESHOLD = 85 / 100"

definition MAX_FOLLOWUP_QUESTIONS :: int where
  "MAX_FOLLOWUP_QUESTIONS = 3"

subsection \<open>Data\<close>

type_synonym vector = "rat list"

text \<open>A hit as \<^verbatim>\<open>search_by_query\<close> builds it: a dict with these six keys (\<open>pid\<close> is its \<^verbatim>\<open>id\<close>, \<open>pfile\<close> its \<^verbatim>\<open>file\<close>).\<close>

record point =
  pid :: nat
  vector :: vector
  chunk :: string
  pfile :: string
  chunk_type :: string
  score :: rat

datatype status = Created | Clusters | Followup | Found | Exhausted

datatype error = ValueError | HTTPException nat | EncodeError | StoreError

datatype 'a result = Done 'a | Raised error 'a

record nav_node =
  nodeId :: string
  nlabel :: string
  depth :: int
  parentNodeId :: "string option"
  nround :: int
  clusterId :: "int option"
  isOnPath :: bool

type_synonym conversation = "(string \<times> string) list"

type_synonym snapshot = "point list \<times> conversation \<times> int"

record session =
  session_id :: string
  query :: string
  expanded_query :: string
  points :: "point list"
  labels :: "int list option"
  cluster_labels :: "(int \<times> string) list"
  cluster_files :: "(int \<times> string list) list"
  cluster_sizes :: "(int \<times> nat) list"
  conversation :: conversation
  pending_question :: "string option"
  followup_count :: int
  found_file :: "string option"
  round_no :: int
  status :: status
  nav_tree :: "nav_node list"
  current_nav_node :: "string option"
  snapshots :: "(int \<times> snapshot) list"
  nav_node_counter :: int

record oracles =
  hdbscan_fit_predict :: "nat \<Rightarrow> vector list \<Rightarrow> int list"
  np_argsort :: "int list \<Rightarrow> nat list"
  encode :: "string \<Rightarrow> vector option"
  cosine :: "vector \<Rightarrow> vector \<Rightarrow> rat"
  chat_expand :: "string \<Rightarrow> string option"
  chat_label :: "string \<Rightarrow> string option"
  chat_followup :: "(string \<times> string) list \<Rightarrow> conversation \<Rightarrow> int \<Rightarrow> string option"
  search_by_query :: "string \<Rightarrow> point list option"

subsection \<open>String helpers\<close>

fun join :: "string \<Rightarrow> string list \<Rightarrow> string" where
  "join sep [] = []"
| "join sep [x] = x"
| "join sep (x # y # ys) = x @ sep @ join sep (y # ys)"

definition is_space :: "char \<Rightarrow> bool" where
  "is_space c = (c \<in> set [CHR '' '', CHR 0x09, CHR 0x0A, CHR 0x0B, CHR 0x0C, CHR 0x0D])"

definition strip :: "string \<Rightarrow> string" where
  "strip s = rev (dropWhile is_space (rev (dropWhile is_space s)))"

definition strip_quote :: "string \<Rightarrow> string" where
  "strip_quote s =
     rev (dropWhile (\<lambda>c. c = CHR 0x22) (rev (dropWhile (\<lambda>c. c = CHR 0x22) s)))"

definition digit_char :: "nat \<Rightarrow> char" where
  "digit_char d = char_of (48 + d)"

fun str_nat :: "nat \<Rightarrow> string" where
  "str_nat n = (if n < 10 then [digit_char n] else str_nat (n div 10) @ [digit_char (n mod 10)])"

declare str_nat.simps [simp del]

definition str_int :: "int \<Rightarrow> string" where
  "str_int i = (if i < 0 then CHR ''-'' # str_nat (nat (- i)) else str_nat (nat i))"

subsection \<open>search.py: clustering\<close>

text \<open>\<^verbatim>\<open>np.unique(labels[labels >= 0], return_counts=True)\<close>: the sorted distinct
  non-negative labels, and how often each occurs.\<close>

definition np_unique :: "int list \<Rightarrow> int list" where
  "np_unique ls = sort (remdups (filter (\<lambda>l. 0 \<le> l) ls))"

definition np_counts :: "int list \<Rightarrow> int list" where
  "np_counts ls = map (\<lambda>u. int (count_list ls u)) (np_unique ls)"

text \<open>\<^verbatim>\<open>np.argsort\<close> is called with numpy's default sort, which promises the indices
  of an ascending order and nothing about equal keys; it is the oracle \<open>np_argsort\<close>.
  \<open>stable_argsort\<close> is the argsort that keeps equal keys in index order.\<close>

definition stable_argsort :: "int list \<Rightarrow> nat list" where
  "stable_argsort ks = sort_key (\<lambda>i. ks ! i) [0..<length ks]"

text \<open>The cap of \<^verbatim>\<open>cluster_vectors\<close>, applied to the labels the density clusterer
  returned.\<close>

definition cap_labels :: "(int list \<Rightarrow> nat list) \<Rightarrow> int list \<Rightarrow> int list" where
  "cap_labels argsort ls =
     (let unique = np_unique ls; counts = np_counts ls in
      if length unique > MAX_CLUSTERS then
        (let top_ids = map (\<lambda>i. unique ! i) (take MAX_CLUSTERS (argsort (map uminus counts)));
             ls1 = map (\<lambda>l. if l \<in> set top_ids then l else - 1) ls;
             remap = zip (sort (remdups top_ids)) (map int [0..<length (remdups top_ids)])
         in map (\<lambda>l. case map_of remap l of Some new \<Rightarrow> new | None \<Rightarrow> - 1) ls1)
      else ls)"

definition cluster_vectors :: "oracles \<Rightarrow> vector list \<Rightarrow> int list" where
  "cluster_vectors orc vectors =
     (let n_samples = length vectors;
          min_cs = max HDBSCAN_MIN_CLUSTER_SIZE (n_samples div 15)
      in cap_labels (np_argsort orc) (hdbscan_fit_predict orc min_cs vectors))"

text \<open>\<^verbatim>\<open>dict.setdefault(k, []).append(v)\<close> on a dict in insertion order.\<close>

definition setdefault_append :: "'k \<Rightarrow> 'v \<Rightarrow> ('k \<times> 'v list) list \<Rightarrow> ('k \<times> 'v list) list" where
  "setdefault_append k v m =
     AList.update k ((case map_of m k of None \<Rightarrow> [] | Some vs \<Rightarrow> vs) @ [v]) m"

definition group_by_label :: "(point \<Rightarrow> 'v) \<Rightarrow> point list \<Rightarrow> int list \<Rightarrow> (int \<times> 'v list) list" where
  "group_by_label f pts ls =
     fold (\<lambda>(pt, lbl) m. if lbl = - 1 then m else setdefault_append lbl (f pt) m) (zip pts ls) []"

definition aggregate_cluster_text :: "point list \<Rightarrow> int list \<Rightarrow> (int \<times> string) list" where
  "aggregate_cluster_text pts ls =
     map (\<lambda>(k, v). (k, join [CHR 0x0A, CHR 0x0A] v)) (group_by_label chunk pts ls)"

definition cluster_files_of :: "point list \<Rightarrow> int list \<Rightarrow> (int \<times> string list) list" where
  "cluster_files_of pts ls =
     map (\<lambda>(k, v). (k, sort (remdups v))) (group_by_label pfile pts ls)"

definition label_clusters :: "oracles \<Rightarrow> (int \<times> string) list \<Rightarrow> (int \<times> string) list" where
  "label_clusters orc cluster_texts =
     map (\<lambda>(cid, text).
            (cid, case chat_label orc (take 3000 text) of
                    Some content \<Rightarrow> strip_quote (strip content)
                  | None \<Rightarrow> ''Cluster '' @ str_int cid))
         cluster_texts"

text \<open>\<^verbatim>\<open>Counter(int(l) for l in labels if l != -1)\<close>.\<close>

definition counter :: "int list \<Rightarrow> (int \<times> nat) list" where
  "counter ls =
     fold (\<lambda>l m. if l = - 1 then m
                  else AList.update l (Suc (case map_of m l of None \<Rightarrow> 0 | Some c \<Rightarrow> c)) m) ls []"

subsection \<open>search.py: follow-up questions\<close>

definition build_file_summaries :: "point list \<Rightarrow> (string \<times> string) list" where
  "build_file_summaries pts =
     map (\<lambda>(fname, chunks). (fname, take 2000 (join [CHR 0x0A] chunks)))
         (fold (\<lambda>pt m. setdefault_append (pfile pt) (chunk pt) m) pts [])"

definition fallback_question :: string where
  "fallback_question = ''Can you describe anything else you remember about the file?''"

definition ask_followup_question ::
    "oracles \<Rightarrow> (string \<times> string) list \<Rightarrow> conversation \<Rightarrow> int \<Rightarrow> string" where
  "ask_followup_question orc file_summaries conv question_num =
     (case chat_followup orc file_summaries conv question_num of
        Some content \<Rightarrow> strip content
      | None \<Rightarrow> fallback_question)"

text \<open>\<^verbatim>\<open>_filter_by_followup\<close>. The embedding call comes first and may raise; Python's
  \<^verbatim>\<open>list.sort\<close> is stable, as \<open>sort_key\<close> is.\<close>

definition filter_by_followup :: "oracles \<Rightarrow> point list \<Rightarrow> conversation \<Rightarrow> error + point list" where
  "filter_by_followup orc pts conv =
     (case encode orc (join '' '' (map snd conv)) of
        None \<Rightarrow> Inl EncodeError
      | Some context_vec \<Rightarrow>
          (let scored = map (\<lambda>pt. (cosine orc context_vec (vector pt), pt)) pts;
               scored = sort_key (\<lambda>x. - fst x) scored;
               median_idx = max 1 (length scored div 2);
               kept = map snd (take median_idx scored)
           in if length kept < 3
              then Inr (map snd (take (max 3 (length scored)) scored))
              else Inr kept))"

subsection \<open>api.py: the Session class\<close>

definition new_session :: "string \<Rightarrow> string \<Rightarrow> string \<Rightarrow> point list \<Rightarrow> session" where
  "new_session sid q expanded hits =
     \<lparr> session_id = sid, query = q, expanded_query = expanded, points = hits,
       labels = None, cluster_labels = [], cluster_files = [], cluster_sizes = [],
       conversation = [], pending_question = None, followup_count = 0,
       found_file = None, round_no = 0, status = Created,
       nav_tree = [], current_nav_node = None, snapshots = [], nav_node_counter = 0 \<rparr>"

definition unique_files :: "session \<Rightarrow> string list" where
  "unique_files s = sort (remdups (map pfile (points s)))"

definition file_scores :: "session \<Rightarrow> (string \<times> rat) list" where
  "file_scores s =
     sort_key (\<lambda>x. - snd x)
       (fold (\<lambda>pt best.
                case map_of best (pfile pt) of
                  None \<Rightarrow> AList.update (pfile pt) (score pt) best
                | Some b \<Rightarrow> if score pt > b then AList.update (pfile pt) (score pt) best else best)
             (points s) [])"

definition generate_followup :: "oracles \<Rightarrow> session \<Rightarrow> session" where
  "generate_followup orc s =
     (let file_summaries = build_file_summaries (points s);
          q = ask_followup_question orc file_summaries (conversation s) (followup_count s + 1)
      in s\<lparr>pending_question := Some q, status := Followup\<rparr>)"

definition cluster_node :: "int \<Rightarrow> string \<Rightarrow> int \<Rightarrow> string option \<Rightarrow> nav_node" where
  "cluster_node cid lbl r parent_id =
     \<lparr> nodeId = ''c'' @ str_int cid @ ''-r'' @ str_int r, nlabel = lbl, depth = r,
       parentNodeId = parent_id, nround = r, clusterId = Some cid, isOnPath = False \<rparr>"

text \<open>The loop of \<^verbatim>\<open>do_cluster\<close> over \<^verbatim>\<open>sorted(self.cluster_labels)\<close> reads each label with
  \<^verbatim>\<open>self.cluster_labels[cid]\<close>; the keys of a dict are distinct, so it is a loop over the
  items in key order.\<close>

definition add_cluster_nodes :: "string option \<Rightarrow> (int \<times> string) list \<Rightarrow> session \<Rightarrow> session" where
  "add_cluster_nodes parent_id items s =
     fold (\<lambda>(cid, lbl) st.
             st\<lparr>nav_node_counter := nav_node_counter st + 1,
                nav_tree := nav_tree st @ [cluster_node cid lbl (round_no st) parent_id]\<rparr>)
          items s"

definition do_cluster :: "oracles \<Rightarrow> session \<Rightarrow> session" where
  "do_cluster orc s =
     (let s1 = s\<lparr>round_no := round_no s + 1\<rparr>;
          s2 = s1\<lparr>snapshots :=
                    AList.update (round_no s1) (points s1, conversation s1, followup_count s1)
                      (snapshots s1)\<rparr>;
          lbls = cluster_vectors orc (map vector (points s2));
          cluster_texts = aggregate_cluster_text (points s2) lbls;
          s3 = s2\<lparr>labels := Some lbls,
                  cluster_files := cluster_files_of (points s2) lbls,
                  cluster_sizes := counter lbls\<rparr>
      in if cluster_texts = [] then generate_followup orc (s3\<lparr>status := Followup\<rparr>)
         else
           (let s4 = s3\<lparr>cluster_labels := label_clusters orc cluster_texts, status := Clusters\<rparr>;
                parent_id = current_nav_node s4
            in add_cluster_nodes parent_id (sort_key fst (cluster_labels s4)) s4))"

definition check_termination_or_recluster :: "oracles \<Rightarrow> session \<Rightarrow> session" where
  "check_termination_or_recluster orc s =
     (let files = unique_files s
      in if length files = 1 then s\<lparr>found_file := Some (hd files), status := Found\<rparr>
         else if length (points s) < 3 then s\<lparr>status := Exhausted\<rparr>
         else do_cluster orc s)"

text \<open>The loop of \<^verbatim>\<open>pick_cluster\<close> that marks the first node with the chosen id and
  breaks; \<open>None\<close> when no node has it.\<close>

fun mark_first :: "string \<Rightarrow> nav_node list \<Rightarrow> nav_node list option" where
  "mark_first c [] = None"
| "mark_first c (e # es) =
     (if nodeId e = c then Some (e\<lparr>isOnPath := True\<rparr> # es)
      else map_option ((#) e) (mark_first c es))"

definition narrow :: "point list \<Rightarrow> int list \<Rightarrow> int \<Rightarrow> point list" where
  "narrow pts lbls cluster_id = map fst (filter (\<lambda>(pt, lbl). lbl = cluster_id) (zip pts lbls))"

definition pick_cluster :: "oracles \<Rightarrow> session \<Rightarrow> int \<Rightarrow> session result" where
  "pick_cluster orc s cluster_id =
     (case labels s of
        None \<Rightarrow> Raised ValueError s
      | Some lbls \<Rightarrow>
          (let chosen_node_id = ''c'' @ str_int cluster_id @ ''-r'' @ str_int (round_no s);
               s1 = (case mark_first chosen_node_id (nav_tree s) of
                       None \<Rightarrow> s
                     | Some t \<Rightarrow> s\<lparr>nav_tree := t, current_nav_node := Some chosen_node_id\<rparr>);
               s2 = s1\<lparr>points := narrow (points s1) lbls cluster_id\<rparr>
           in Done (check_termination_or_recluster orc s2)))"

definition start_followup :: "oracles \<Rightarrow> session \<Rightarrow> session" where
  "start_followup orc s = generate_followup orc (s\<lparr>status := Followup\<rparr>)"

text \<open>\<^verbatim>\<open>answer_followup\<close>. \<^verbatim>\<open>not self.pending_question\<close> holds for \<^verbatim>\<open>None\<close> and for the
  empty string. The pair is appended and the question cleared before the filter runs.\<close>

definition answer_followup :: "oracles \<Rightarrow> session \<Rightarrow> string \<Rightarrow> session result" where
  "answer_followup orc s answer =
     (case pending_question s of
        None \<Rightarrow> Raised ValueError s
      | Some q \<Rightarrow>
          if q = [] then Raised ValueError s
          else
            (let s1 = s\<lparr>conversation := conversation s @ [(q, answer)], pending_question := None\<rparr>
             in case filter_by_followup orc (points s1) (conversation s1) of
                  Inl e \<Rightarrow> Raised e s1
                | Inr kept \<Rightarrow>
                    (let s2 = s1\<lparr>points := kept, followup_count := followup_count s1 + 1\<rparr>;
                         files = unique_files s2
                     in if length files = 1
                        then Done (s2\<lparr>found_file := Some (hd files), status := Found\<rparr>)
                        else if followup_count s2 \<ge> MAX_FOLLOWUP_QUESTIONS
                        then Done (check_termination_or_recluster orc s2)
                        else if length files \<le> 3
                        then Done (check_termination_or_recluster orc s2)
                        else Done (generate_followup orc s2))))"

definition backtrack :: "oracles \<Rightarrow> session \<Rightarrow> string \<Rightarrow> session result" where
  "backtrack orc s target_node_id =
     (case find (\<lambda>e. nodeId e = target_node_id) (nav_tree s) of
        None \<Rightarrow> Raised ValueError s
      | Some target \<Rightarrow>
          (let target_round = nround target; target_cluster_id = clusterId target
           in case map_of (snapshots s) target_round of
                None \<Rightarrow> Raised ValueError s
              | Some (saved_points, saved_conv, saved_fcount) \<Rightarrow>
                  (let s1 = s\<lparr>points := saved_points, conversation := saved_conv,
                              followup_count := saved_fcount, found_file := None,
                              pending_question := None\<rparr>;
                       s2 = s1\<lparr>nav_tree := filter (\<lambda>e. nround e \<le> target_round) (nav_tree s1)\<rparr>;
                       s3 = s2\<lparr>nav_tree :=
                                 map (\<lambda>e. if nround e = target_round
                                              \<and> parentNodeId e = parentNodeId target
                                           then e\<lparr>isOnPath := (nodeId e = target_node_id)\<rparr>
                                           else e)
                                     (nav_tree s2)\<rparr>;
                       s4 = s3\<lparr>current_nav_node := Some target_node_id\<rparr>;
                       s5 = s4\<lparr>snapshots := filter (\<lambda>(r, snap). \<not> r > target_round) (snapshots s4)\<rparr>
                   in case target_cluster_id of
                        Some cid \<Rightarrow>
                          (let s6 = s5\<lparr>round_no := target_round - 1\<rparr>;
                               lbls = cluster_vectors orc (map vector (points s6));
                               s7 = s6\<lparr>labels := Some lbls\<rparr>;
                               s8 = s7\<lparr>points := narrow (points s7) lbls cid\<rparr>
                           in Done (check_termination_or_recluster orc s8))
                      | None \<Rightarrow> Done (do_cluster orc (s5\<lparr>round_no := 0\<rparr>)))))"

text \<open>The serialised session of \<^verbatim>\<open>to_dict\<close>: a key the dict does not carry is \<open>None\<close>.\<close>

record cluster_view =
  cv_id :: int
  cv_label :: string
  cv_files :: "string list"
  cv_size :: nat

record session_view =
  v_session_id :: string
  v_status :: status
  v_round :: int
  v_query :: string
  v_expanded_query :: string
  v_total_chunks :: nat
  v_files :: "string list"
  v_file_scores :: "(string \<times> rat) list"
  v_clusters :: "cluster_view list option"
  v_pending_question :: "string option option"
  v_followup_count :: "int option"
  v_max_followups :: "int option"
  v_found_file :: "string option option"
  v_remaining_files :: "string list option"
  v_conversation :: conversation
  v_nav_tree :: "nav_node list"
  v_current_nav_node :: "string option"

definition to_dict :: "session \<Rightarrow> session_view" where
  "to_dict s =
     \<lparr> v_session_id = session_id s, v_status = status s, v_round = round_no s,
       v_query = query s, v_expanded_query = expanded_query s,
       v_total_chunks = length (points s), v_files = unique_files s,
       v_file_scores = file_scores s,
       v_clusters =
         (if status s = Clusters
          then Some (map (\<lambda>cid.
                 \<lparr> cv_id = cid,
                   cv_label = (case map_of (cluster_labels s) cid of
                                 Some l \<Rightarrow> l | None \<Rightarrow> ''Cluster '' @ str_int cid),
                   cv_files = (case map_of (cluster_files s) cid of Some fs \<Rightarrow> fs | None \<Rightarrow> []),
                   cv_size = (case map_of (cluster_sizes s) cid of Some n \<Rightarrow> n | None \<Rightarrow> 0) \<rparr>)
                 (sort (map fst (cluster_labels s))))
          else None),
       v_pending_question = (if status s = Followup then Some (pending_question s) else None),
       v_followup_count = (if status s = Followup then Some (followup_count s) else None),
       v_max_followups = (if status s = Followup then Some MAX_FOLLOWUP_QUESTIONS else None),
       v_found_file = (if status s = Found then Some (found_file s) else None),
       v_remaining_files = (if status s = Exhausted then Some (unique_files s) else None),
       v_conversation = conversation s, v_nav_tree = nav_tree s,
       v_current_nav_node = current_nav_node s \<rparr>"

subsection \<open>api.py: the endpoints\<close>

text \<open>Each endpoint is given the session that \<^verbatim>\<open>sessions.get(session_id)\<close> found.\<close>

definition expand_query :: "oracles \<Rightarrow> string \<Rightarrow> string" where
  "expand_query orc q = (case chat_expand orc q of Some content \<Rightarrow> strip content | None \<Rightarrow> q)"

definition root_node :: "string \<Rightarrow> nav_node" where
  "root_node q =
     \<lparr> nodeId = ''root'', nlabel = q, depth = 0, parentNodeId = None, nround = 0,
       clusterId = None, isOnPath = True \<rparr>"

definition start_search :: "oracles \<Rightarrow> string \<Rightarrow> string \<Rightarrow> error + session" where
  "start_search orc sid q =
     (let expanded = expand_query orc q
      in case search_by_query orc expanded of
           None \<Rightarrow> Inl StoreError
         | Some hits \<Rightarrow>
             if hits = [] then Inl (HTTPException 404)
             else
               (let s = new_session sid q expanded hits;
                    s = s\<lparr>nav_tree := nav_tree s @ [root_node q]\<rparr>;
                    s = s\<lparr>current_nav_node := Some ''root''\<rparr>
                in if score (hd hits) \<ge> DIRECT_MATCH_THRESHOLD
                   then Inr (s\<lparr>found_file := Some (pfile (hd hits)), status := Found\<rparr>)
                   else Inr (do_cluster orc s)))"

definition pick_cluster_endpoint :: "oracles \<Rightarrow> session \<Rightarrow> int \<Rightarrow> session result" where
  "pick_cluster_endpoint orc s cluster_id =
     (if status s \<noteq> Clusters then Raised (HTTPException 400) s
      else if cluster_id \<notin> set (map fst (cluster_labels s)) then Raised (HTTPException 400) s
      else pick_cluster orc s cluster_id)"

definition ask_for_help :: "oracles \<Rightarrow> session \<Rightarrow> session result" where
  "ask_for_help orc s =
     (if status s \<noteq> Clusters \<and> status s \<noteq> Followup then Raised (HTTPException 400) s
      else if followup_count s \<ge> MAX_FOLLOWUP_QUESTIONS then Raised (HTTPException 400) s
      else Done (start_followup orc s))"

definition answer_followup_endpoint :: "oracles \<Rightarrow> session \<Rightarrow> string \<Rightarrow> session result" where
  "answer_followup_endpoint orc s answer =
     (if status s \<noteq> Followup then Raised (HTTPException 400) s
      else answer_followup orc s answer)"

definition backtrack_session :: "oracles \<Rightarrow> session \<Rightarrow> string \<Rightarrow> session result" where
  "backtrack_session orc s node_id =
     (case backtrack orc s node_id of
        Raised ValueError s' \<Rightarrow> Raised (HTTPException 400) s'
      | r \<Rightarrow> r)"

subsection \<open>Runs of a session\<close>

text \<open>The session an operation leaves, however it ended.\<close>

fun state_of :: "'a result \<Rightarrow> 'a" where
  "state_of (Done s) = s"
| "state_of (Raised e s) = s"

fun is_Done :: "'a result \<Rightarrow> bool" where
  "is_Done (Done s) = True"
| "is_Done (Raised e s) = False"

datatype event = Pick int | Help | Answer string | Backtrack string

fun step :: "oracles \<Rightarrow> session \<Rightarrow> event \<Rightarrow> session result" where
  "step orc s (Pick cid) = pick_cluster_endpoint orc s cid"
| "step orc s Help = ask_for_help orc s"
| "step orc s (Answer a) = answer_followup_endpoint orc s a"
| "step orc s (Backtrack nid) = backtrack_session orc s nid"

text \<open>A client that keeps sending requests, whatever each one returned.\<close>

fun run :: "oracles \<Rightarrow> session \<Rightarrow> event list \<Rightarrow> session" where
  "run orc s [] = s"
| "run orc s (ev # evs) = run orc (state_of (step orc s ev)) evs"

fun narrowing :: "event \<Rightarrow> bool" where
  "narrowing (Pick cid) = True"
| "narrowing (Answer a) = True"
| "narrowing Help = False"
| "narrowing (Backtrack nid) = False"

text \<open>The sessions the endpoints can produce; the oracles may answer differently at
  every request.\<close>

inductive reachable :: "session \<Rightarrow> bool" where
  r_start: "start_search orc sid q = Inr s \<Longrightarrow> reachable s"
| r_step: "reachable s \<Longrightarrow> reachable (state_of (step orc s ev))"

text \<open>What the first half of \<^verbatim>\<open>do_cluster\<close> writes, before it looks at the clusters.\<close>

definition clustered :: "oracles \<Rightarrow> session \<Rightarrow> session" where
  "clustered orc s =
     s\<lparr>round_no := round_no s + 1,
       snapshots := AList.update (round_no s + 1) (points s, conversation s, followup_count s) (snapshots s),
       labels := Some (cluster_vectors orc (map vector (points s))),
       cluster_files := cluster_files_of (points s) (cluster_vectors orc (map vector (points s))),
       cluster_sizes := counter (cluster_vectors orc (map vector (points s)))\<rparr>"

text \<open>What \<^verbatim>\<open>answer_followup\<close> has written once the filter has returned \<open>kept\<close>.\<close>

definition answered :: "session \<Rightarrow> string \<Rightarrow> string \<Rightarrow> point list \<Rightarrow> session" where
  "answered s q a kept =
     s\<lparr>conversation := conversation s @ [(q, a)], pending_question := None,
       points := kept, followup_count := followup_count s + 1\<rparr>"

text \<open>A session that \<^verbatim>\<open>start_search\<close> answered from the top hit alone, and what holds
  of \<^verbatim>\<open>found_file\<close> in every session.\<close>

definition direct_hit :: "session \<Rightarrow> bool" where
  "direct_hit s \<longleftrightarrow>
     round_no s = 0 \<and> snapshots s = [] \<and> points s \<noteq> [] \<and>
     DIRECT_MATCH_THRESHOLD \<le> score (hd (points s)) \<and>
     found_file s = Some (pfile (hd (points s)))"

definition found_inv :: "session \<Rightarrow> bool" where
  "found_inv s \<longleftrightarrow>
     (found_file s \<noteq> None \<longleftrightarrow> status s = Found) \<and>
     (status s = Found \<longrightarrow>
        (\<exists>f. unique_files s = [f] \<and> found_file s = Some f) \<or> direct_hit s)"

text \<open>Rounds, snapshot keys and the rounds of the navigation nodes: the root is at round 0,
  every snapshot and every cluster node at round 1 or later.\<close>

definition round_inv :: "session \<Rightarrow> bool" where
  "round_inv s \<longleftrightarrow>
     0 \<le> round_no s \<and>
     (\<forall>k \<in> fst ` set (snapshots s). 1 \<le> k) \<and>
     (\<forall>n \<in> set (nav_tree s).
        (nodeId n = ''root'' \<longrightarrow> nround n = 0) \<and> (clusterId n \<noteq> None \<longrightarrow> 1 \<le> nround n))"

subsection \<open>The cap, as the specification words it\<close>







text \<open>The cluster ids in the order in which \<^verbatim>\<open>cluster_vectors\<close> ranks them when
  \<^verbatim>\<open>np.argsort\<close> keeps equal counts in index order.\<close>

definition ranked :: "int list \<Rightarrow> int list" where
  "ranked ls = map (\<lambda>i. np_unique ls ! i) (stable_argsort (map uminus (np_counts ls)))"

subsection \<open>Concrete sessions\<close>

definition mk_point :: "nat \<Rightarrow> string \<Rightarrow> rat \<Rightarrow> point" where
  "mk_point i f sc =
     \<lparr> pid = i, vector = [of_nat i], chunk = ''text'', pfile = f,
       chunk_type = ''content'', score = sc \<rparr>"

text \<open>\<open>n\<close> hits below the direct-match threshold, each from a file of its own.\<close>

definition scattered :: "nat \<Rightarrow> point list" where
  "scattered n = map (\<lambda>i. mk_point i (''f'' @ str_nat i) (1 / 2)) [0..<n]"

text \<open>Ten hits below the threshold: five from one file, five from another.\<close>

definition two_files :: "point list" where
  "two_files = map (\<lambda>i. mk_point i (if i < 5 then ''A.pdf'' else ''B.pdf'') (1 / 2)) [0..<10]"

text \<open>Three hits below the threshold, all from one file.\<close>

definition one_file :: "point list" where
  "one_file = map (\<lambda>i. mk_point i ''A.pdf'' (1 / 2)) [0..<3]"

text \<open>A top hit above the threshold, followed by a hit from another file.\<close>

definition direct_hits :: "point list" where
  "direct_hits = [mk_point 0 ''X.pdf'' (9 / 10), mk_point 1 ''Y.pdf'' (1 / 2)]"

text \<open>Oracles whose clusterer finds no cluster and whose chat model is down.\<close>

definition noise_oracles :: "point list \<Rightarrow> oracles" where
  "noise_oracles hits =
     \<lparr> hdbscan_fit_predict = (\<lambda>min_cs vs. replicate (length vs) (- 1)),
       np_argsort = stable_argsort,
       encode = (\<lambda>t. Some [1]),
       cosine = (\<lambda>u v. case v of [] \<Rightarrow> 0 | x # xs \<Rightarrow> x),
       chat_expand = (\<lambda>q. None), chat_label = (\<lambda>t. None),
       chat_followup = (\<lambda>fs conv n. None),
       search_by_query = (\<lambda>q. Some hits) \<rparr>"

text \<open>Oracles whose clusterer splits twenty and ten points into two halves and finds
  nothing below that.\<close>

definition halving_oracles :: "point list \<Rightarrow> oracles" where
  "halving_oracles hits =
     (noise_oracles hits)
       \<lparr> hdbscan_fit_predict :=
           (\<lambda>min_cs vs. if length vs = 20 then replicate 10 0 @ replicate 10 1
                         else if length vs = 10 then replicate 5 0 @ replicate 5 1
                         else replicate (length vs) (- 1)) \<rparr>"

text \<open>Oracles whose clusterer finds five clusters: two of three points and three of two.\<close>

definition tied_labels :: "int list" where
  "tied_labels = [0, 0, 0, 1, 1, 2, 2, 3, 3, 3, 4, 4, - 1]"

definition tied_oracles :: oracles where
  "tied_oracles = (noise_oracles [])\<lparr> hdbscan_fit_predict := (\<lambda>min_cs vs. tied_labels) \<rparr>"

text \<open>The same, with an argsort that returns equal keys in reverse index order.\<close>

definition reversing_oracles :: oracles where
  "reversing_oracles =
     tied_oracles\<lparr> np_argsort := (\<lambda>ks. sort_key (\<lambda>i. ks ! i) (rev [0..<length ks])) \<rparr>"

text \<open>Oracles whose embedder raises.\<close>

definition deaf_oracles :: "point list \<Rightarrow> oracles" where
  "deaf_oracles hits = (noise_oracles hits)\<lparr> encode := (\<lambda>t. None) \<rparr>"

text \<open>The session \<open>start_search\<close> creates, or a blank one when it raised.\<close>

definition started :: "oracles \<Rightarrow> session" where
  "started orc =
     (case start_search orc ''s1'' ''flood report'' of
        Inr s \<Rightarrow> s
      | Inl e \<Rightarrow> new_session [] [] [] [])"

section \<open>Properties\<close>

subsection \<open>The follow-up filter\<close>

lemma filter_len:
  assumes "filter_by_followup orc pts conv = Inr kept"
  shows "length kept = (if length pts < 6 then length pts else length pts div 2)"
  using assms
  by (auto simp: filter_by_followup_def Let_def split: option.splits if_splits)

lemma mset_take_sub: "mset (take k xs) \<subseteq># mset xs"
  by (metis append_take_drop_id mset_append mset_subset_eq_add_left)

lemma filter_sub:
  assumes "filter_by_followup orc pts conv = Inr kept"
  shows "mset kept \<subseteq># mset pts"
proof -
  obtain cv where cv: "encode orc (join '' '' (map snd conv)) = Some cv"
    using assms by (auto simp: filter_by_followup_def split: option.splits)
  define scored where "scored = sort_key (\<lambda>x. - fst x) (map (\<lambda>pt. (cosine orc cv (vector pt), pt)) pts)"
  have m: "mset (map snd scored) = mset pts"
    by (simp add: scored_def multiset.map_comp comp_def)
  have "\<exists>k. kept = map snd (take k scored)"
  proof (cases "length (map snd (take (max 1 (length pts div 2)) scored)) < 3")
    case True
    then have "kept = map snd (take (max 3 (length pts)) scored)"
      using assms cv unfolding filter_by_followup_def Let_def scored_def by (auto split: if_splits)
    then show ?thesis by blast
  next
    case False
    then have "kept = map snd (take (max 1 (length pts div 2)) scored)"
      using assms cv unfolding filter_by_followup_def Let_def scored_def by (auto split: if_splits)
    then show ?thesis by blast
  qed
  then obtain k where "kept = map snd (take k scored)" by blast
  then have "mset kept \<subseteq># mset (map snd scored)"
    by (simp add: take_map[symmetric] mset_take_sub del: mset_map)
  with m show ?thesis by simp
qed

subsection \<open>Clustering rounds and the termination check\<close>

lemma add_cluster_nodes_eq:
  "add_cluster_nodes parent items s =
     s\<lparr>nav_node_counter := nav_node_counter s + int (length items),
       nav_tree := nav_tree s @ map (\<lambda>(cid, lbl). cluster_node cid lbl (round_no s) parent) items\<rparr>"
  unfolding add_cluster_nodes_def
proof (induction items arbitrary: s)
  case Nil
  show ?case by simp
next
  case (Cons a items)
  show ?case by (cases a) (simp add: Cons.IH)
qed

lemma do_cluster_eq:
  "do_cluster orc s =
     (if aggregate_cluster_text (points s) (cluster_vectors orc (map vector (points s))) = []
      then (clustered orc s)\<lparr>status := Followup,
             pending_question := Some (ask_followup_question orc (build_file_summaries (points s))
                                         (conversation s) (followup_count s + 1))\<rparr>
      else (clustered orc s)\<lparr>
             cluster_labels := label_clusters orc
                (aggregate_cluster_text (points s) (cluster_vectors orc (map vector (points s)))),
             status := Clusters,
             nav_node_counter := nav_node_counter s
                + int (length (aggregate_cluster_text (points s) (cluster_vectors orc (map vector (points s))))),
             nav_tree := nav_tree s @
                map (\<lambda>(cid, lbl). cluster_node cid lbl (round_no s + 1) (current_nav_node s))
                  (sort_key fst (label_clusters orc
                     (aggregate_cluster_text (points s) (cluster_vectors orc (map vector (points s))))))\<rparr>)"
  by (simp add: do_cluster_def Let_def add_cluster_nodes_eq generate_followup_def clustered_def
      label_clusters_def)

lemma clustered_simps [simp]:
  "points (clustered orc s) = points s"
  "conversation (clustered orc s) = conversation s"
  "followup_count (clustered orc s) = followup_count s"
  "found_file (clustered orc s) = found_file s"
  "pending_question (clustered orc s) = pending_question s"
  "status (clustered orc s) = status s"
  "round_no (clustered orc s) = round_no s + 1"
  by (simp_all add: clustered_def)

lemma do_cluster_points [simp]: "points (do_cluster orc s) = points s"
  by (simp add: do_cluster_eq)

lemma do_cluster_conversation [simp]: "conversation (do_cluster orc s) = conversation s"
  by (simp add: do_cluster_eq)

lemma do_cluster_followup_count [simp]: "followup_count (do_cluster orc s) = followup_count s"
  by (simp add: do_cluster_eq)

lemma do_cluster_found_file [simp]: "found_file (do_cluster orc s) = found_file s"
  by (simp add: do_cluster_eq)

lemma do_cluster_status:
  "status (do_cluster orc s) = Clusters \<or>
   (status (do_cluster orc s) = Followup \<and>
    pending_question (do_cluster orc s) =
      Some (ask_followup_question orc (build_file_summaries (points s)) (conversation s)
              (followup_count s + 1)))"
  by (simp add: do_cluster_eq)

lemma unique_files_cong: "points s = points t \<Longrightarrow> unique_files s = unique_files t"
  by (simp add: unique_files_def)

lemma unique_files_do_cluster [simp]: "unique_files (do_cluster orc s) = unique_files s"
  by (simp add: unique_files_def)

lemma check_points [simp]: "points (check_termination_or_recluster orc s) = points s"
  by (simp add: check_termination_or_recluster_def Let_def)

lemma check_conversation [simp]:
  "conversation (check_termination_or_recluster orc s) = conversation s"
  by (simp add: check_termination_or_recluster_def Let_def)

lemma check_followup_count [simp]:
  "followup_count (check_termination_or_recluster orc s) = followup_count s"
  by (simp add: check_termination_or_recluster_def Let_def)

lemma unique_files_check [simp]:
  "unique_files (check_termination_or_recluster orc s) = unique_files s"
  by (simp add: unique_files_def)

lemma check_found:
  "length (unique_files s) = 1 \<Longrightarrow>
     status (check_termination_or_recluster orc s) = Found \<and>
     found_file (check_termination_or_recluster orc s) = Some (hd (unique_files s))"
  by (simp add: check_termination_or_recluster_def Let_def)

lemma check_exhausted:
  "length (unique_files s) \<noteq> 1 \<Longrightarrow> length (points s) < 3 \<Longrightarrow>
     status (check_termination_or_recluster orc s) = Exhausted"
  by (simp add: check_termination_or_recluster_def Let_def)

lemma check_followup_pending:
  "status (check_termination_or_recluster orc s) = Followup \<Longrightarrow>
   pending_question (check_termination_or_recluster orc s) =
      Some (ask_followup_question orc (build_file_summaries (points s)) (conversation s)
              (followup_count s + 1))"
  using do_cluster_status [of orc s]
  by (auto simp: check_termination_or_recluster_def Let_def split: if_splits)

lemma length_unique_files_le: "length (unique_files s) \<le> length (points s)"
  unfolding unique_files_def
  by (metis length_map length_remdups_leq length_sort)

lemma to_dict_remaining:
  "status s = Exhausted \<Longrightarrow> v_remaining_files (to_dict s) = Some (unique_files s)"
  by (simp add: to_dict_def)

lemma pick_Done:
  assumes "pick_cluster_endpoint orc s cid = Done s'"
  obtains lbls where "labels s = Some lbls"
    and "s' = check_termination_or_recluster orc
           ((case mark_first (''c'' @ str_int cid @ ''-r'' @ str_int (round_no s)) (nav_tree s) of
               None \<Rightarrow> s
             | Some t \<Rightarrow> s\<lparr>nav_tree := t,
                  current_nav_node := Some (''c'' @ str_int cid @ ''-r'' @ str_int (round_no s))\<rparr>)
            \<lparr>points := narrow (points s) lbls cid\<rparr>)"
  using assms
  by (auto simp: pick_cluster_endpoint_def pick_cluster_def Let_def
      split: if_splits option.splits)

lemma pick_Done_points:
  assumes "pick_cluster_endpoint orc s cid = Done s'"
  shows "\<exists>lbls. labels s = Some lbls \<and> points s' = narrow (points s) lbls cid"
  using assms by (rule pick_Done) (auto split: option.splits)

lemma answered_simps [simp]:
  "points (answered s q a kept) = kept"
  "conversation (answered s q a kept) = conversation s @ [(q, a)]"
  "followup_count (answered s q a kept) = followup_count s + 1"
  "found_file (answered s q a kept) = found_file s"
  "status (answered s q a kept) = status s"
  "pending_question (answered s q a kept) = None"
  "round_no (answered s q a kept) = round_no s"
  "snapshots (answered s q a kept) = snapshots s"
  "nav_tree (answered s q a kept) = nav_tree s"
  by (simp_all add: answered_def)

lemma answer_followup_Done:
  assumes "answer_followup orc s a = Done s'"
  shows "\<exists>q kept. pending_question s = Some q \<and> q \<noteq> [] \<and>
     filter_by_followup orc (points s) (conversation s @ [(q, a)]) = Inr kept \<and>
     s' = (if length (unique_files (answered s q a kept)) = 1
           then (answered s q a kept)\<lparr>found_file := Some (hd (unique_files (answered s q a kept))),
                  status := Found\<rparr>
           else if followup_count (answered s q a kept) \<ge> MAX_FOLLOWUP_QUESTIONS
           then check_termination_or_recluster orc (answered s q a kept)
           else if length (unique_files (answered s q a kept)) \<le> 3
           then check_termination_or_recluster orc (answered s q a kept)
           else generate_followup orc (answered s q a kept))"
proof -
  from assms obtain q where q: "pending_question s = Some q" "q \<noteq> []"
    by (auto simp: answer_followup_def split: option.splits if_splits)
  from assms q obtain kept where
    k: "filter_by_followup orc (points s) (conversation s @ [(q, a)]) = Inr kept"
    by (auto simp: answer_followup_def Let_def split: sum.splits)
  from assms q k show ?thesis
    by (auto simp: answer_followup_def Let_def answered_def split: if_splits)
qed

lemma generate_followup_simps [simp]:
  "points (generate_followup orc s) = points s"
  "conversation (generate_followup orc s) = conversation s"
  "followup_count (generate_followup orc s) = followup_count s"
  "found_file (generate_followup orc s) = found_file s"
  "status (generate_followup orc s) = Followup"
  "unique_files (generate_followup orc s) = unique_files s"
  "pending_question (generate_followup orc s) =
     Some (ask_followup_question orc (build_file_summaries (points s)) (conversation s)
             (followup_count s + 1))"
  by (simp_all add: generate_followup_def Let_def unique_files_def)

lemma answer_Done:
  assumes "answer_followup_endpoint orc s a = Done s'"
  shows "\<exists>q. pending_question s = Some q \<and> q \<noteq> [] \<and> status s = Followup \<and>
     filter_by_followup orc (points s) (conversation s @ [(q, a)]) = Inr (points s') \<and>
     conversation s' = conversation s @ [(q, a)] \<and>
     followup_count s' = followup_count s + 1 \<and>
     (length (unique_files s') = 1 \<longrightarrow>
           status s' = Found \<and> found_file s' = Some (hd (unique_files s'))) \<and>
     (length (unique_files s') \<noteq> 1 \<longrightarrow> length (points s') < 3 \<longrightarrow> status s' = Exhausted) \<and>
     (status s' = Followup \<longrightarrow>
           pending_question s' =
             Some (ask_followup_question orc (build_file_summaries (points s')) (conversation s')
                     (followup_count s' + 1)))"
proof -
  from assms have st: "status s = Followup" and r: "answer_followup orc s a = Done s'"
    by (auto simp: answer_followup_endpoint_def split: if_splits)
  from answer_followup_Done [OF r] obtain q kept where q: "pending_question s = Some q" "q \<noteq> []"
    and k: "filter_by_followup orc (points s) (conversation s @ [(q, a)]) = Inr kept"
    and s': "s' = (if length (unique_files (answered s q a kept)) = 1
           then (answered s q a kept)\<lparr>found_file := Some (hd (unique_files (answered s q a kept))),
                  status := Found\<rparr>
           else if followup_count (answered s q a kept) \<ge> MAX_FOLLOWUP_QUESTIONS
           then check_termination_or_recluster orc (answered s q a kept)
           else if length (unique_files (answered s q a kept)) \<le> 3
           then check_termination_or_recluster orc (answered s q a kept)
           else generate_followup orc (answered s q a kept))"
    by blast
  define s2 where "s2 = answered s q a kept"
  note s' = s' [folded s2_def]
  have uf: "\<And>x y. unique_files (s2\<lparr>found_file := x, status := y\<rparr>) = unique_files s2"
    by (simp add: unique_files_def)
  have le: "length (unique_files s2) \<le> length (points s2)" by (rule length_unique_files_le)
  have p: "points s' = kept" "conversation s' = conversation s @ [(q, a)]"
    "followup_count s' = followup_count s + 1"
    by (simp_all add: s') (simp_all add: s2_def)
  have u: "unique_files s' = unique_files s2"
    by (simp add: s' uf)
  have f: "length (unique_files s') = 1 \<longrightarrow>
           status s' = Found \<and> found_file s' = Some (hd (unique_files s'))"
    unfolding u by (simp add: s')
  have e: "length (unique_files s') \<noteq> 1 \<longrightarrow> length (points s') < 3 \<longrightarrow> status s' = Exhausted"
  proof (intro impI)
    assume a1: "length (unique_files s') \<noteq> 1" and a2: "length (points s') < 3"
    have ps2: "points s2 = kept" by (simp add: s2_def)
    from a1 u have n1: "length (unique_files s2) \<noteq> 1" by simp
    from a2 p ps2 have n2: "length (points s2) < 3" by simp
    with le have "length (unique_files s2) \<le> 3" by simp
    with n1 have "s' = check_termination_or_recluster orc s2" by (simp add: s')
    with n1 n2 show "status s' = Exhausted" by (simp add: check_exhausted)
  qed
  have g: "status s' = Followup \<longrightarrow>
           pending_question s' =
             Some (ask_followup_question orc (build_file_summaries (points s')) (conversation s')
                     (followup_count s' + 1))"
  proof
    assume a: "status s' = Followup"
    have c: "points s' = points s2" "conversation s' = conversation s2"
      "followup_count s' = followup_count s2"
      by (simp_all add: s')
    show "pending_question s' =
             Some (ask_followup_question orc (build_file_summaries (points s')) (conversation s')
                     (followup_count s' + 1))"
      unfolding c using a check_followup_pending [of orc s2]
      by (auto simp: s' split: if_splits)
  qed
  from q st k p f e g show ?thesis by simp
qed

subsection \<open>What each endpoint leaves\<close>

lemma backtrack_Raised:
  assumes "backtrack orc s nid = Raised e s'"
  shows "s' = s \<and> e = ValueError"
  using assms
  by (auto simp: backtrack_def Let_def split: option.splits prod.splits)

lemma backtrack_session_Raised:
  assumes "backtrack_session orc s nid = Raised e s'"
  shows "s' = s"
  using assms backtrack_Raised [of orc s nid]
  by (auto simp: backtrack_session_def split: result.splits error.splits)

lemma backtrack_unknown:
  "find (\<lambda>n. nodeId n = nid) (nav_tree s) = None \<Longrightarrow>
     backtrack_session orc s nid = Raised (HTTPException 400) s"
  by (simp add: backtrack_session_def backtrack_def)

lemma backtrack_no_snapshot:
  "find (\<lambda>n. nodeId n = nid) (nav_tree s) = Some target \<Longrightarrow>
   map_of (snapshots s) (nround target) = None \<Longrightarrow>
     backtrack_session orc s nid = Raised (HTTPException 400) s"
  by (simp add: backtrack_session_def backtrack_def Let_def)

lemma pick_Raised:
  assumes "pick_cluster_endpoint orc s cid = Raised e s'"
  shows "s' = s"
  using assms
  by (auto simp: pick_cluster_endpoint_def pick_cluster_def Let_def split: if_splits option.splits)

lemma help_Raised:
  assumes "ask_for_help orc s = Raised e s'"
  shows "s' = s"
  using assms by (auto simp: ask_for_help_def split: if_splits)

lemma answer_Raised:
  assumes "answer_followup_endpoint orc s a = Raised e s'"
  shows "s' = s \<or>
         (\<exists>q. pending_question s = Some q \<and> e = EncodeError \<and>
               encode orc (join '' '' (map snd (conversation s @ [(q, a)]))) = None \<and>
               s' = s\<lparr>conversation := conversation s @ [(q, a)], pending_question := None\<rparr>)"
  using assms
  by (auto simp: answer_followup_endpoint_def answer_followup_def Let_def filter_by_followup_def
      split: if_splits option.splits sum.splits)

lemma backtrack_Done_followup:
  assumes "backtrack_session orc s nid = Done s'" and "status s' = Followup"
  shows "pending_question s' =
           Some (ask_followup_question orc (build_file_summaries (points s')) (conversation s')
                   (followup_count s' + 1))"
proof -
  from assms(1) have b: "backtrack orc s nid = Done s'"
    by (auto simp: backtrack_session_def split: result.splits error.splits)
  then consider t where "s' = check_termination_or_recluster orc t"
    | t where "s' = do_cluster orc t"
    by (auto simp: backtrack_def Let_def split: option.splits prod.splits)
  then show ?thesis
  proof cases
    case 1
    with assms(2) check_followup_pending [of orc t] show ?thesis by simp
  next
    case 2
    with assms(2) do_cluster_status [of orc t] show ?thesis by auto
  qed
qed

lemma help_Done:
  assumes "ask_for_help orc s = Done s'"
  shows "status s' = Followup \<and> points s' = points s \<and> conversation s' = conversation s \<and>
         followup_count s' = followup_count s \<and> followup_count s < MAX_FOLLOWUP_QUESTIONS \<and>
         found_file s' = found_file s \<and>
         pending_question s' =
           Some (ask_followup_question orc (build_file_summaries (points s)) (conversation s)
                   (followup_count s + 1))"
  using assms
  by (auto simp: ask_for_help_def start_followup_def generate_followup_def Let_def split: if_splits)

lemma start_followup_pending:
  assumes "start_search orc sid q = Inr s'" and "status s' = Followup"
  shows "pending_question s' =
           Some (ask_followup_question orc (build_file_summaries (points s')) (conversation s')
                   (followup_count s' + 1))"
proof -
  from assms obtain t where "s' = do_cluster orc t"
    by (auto simp: start_search_def Let_def split: option.splits if_splits)
  with assms(2) do_cluster_status [of orc t] show ?thesis by auto
qed

lemma pick_Done_followup:
  assumes "pick_cluster_endpoint orc s cid = Done s'" and "status s' = Followup"
  shows "pending_question s' =
           Some (ask_followup_question orc (build_file_summaries (points s')) (conversation s')
                   (followup_count s' + 1))"
proof -
  from assms(1) obtain t where "s' = check_termination_or_recluster orc t"
    by (rule pick_Done)
  with assms(2) check_followup_pending [of orc t] show ?thesis by simp
qed

subsection \<open>The found file\<close>

lemma singleton_hd: "length xs = 1 \<Longrightarrow> xs = [hd xs]"
  by (cases xs) auto

lemma do_cluster_found_inv:
  assumes "found_file t = None"
  shows "found_inv (do_cluster orc t)"
  using assms do_cluster_status [of orc t] by (auto simp: found_inv_def)

lemma check_found_inv:
  assumes "found_file t = None"
  shows "found_inv (check_termination_or_recluster orc t)"
proof (cases "length (unique_files t) = 1")
  case True
  from check_found [OF True, of orc] singleton_hd [OF True] show ?thesis
    by (auto simp: found_inv_def)
next
  case False
  show ?thesis
  proof (cases "length (points t) < 3")
    case True
    with False assms show ?thesis
      by (simp add: check_termination_or_recluster_def Let_def found_inv_def)
  next
    case n3: False
    with False have "check_termination_or_recluster orc t = do_cluster orc t"
      by (simp add: check_termination_or_recluster_def Let_def)
    with assms show ?thesis by (simp add: do_cluster_found_inv)
  qed
qed

lemma found_inv_None: "found_inv s \<Longrightarrow> status s \<noteq> Found \<Longrightarrow> found_file s = None"
  by (auto simp: found_inv_def)

lemma start_found_inv:
  assumes "start_search orc sid q = Inr s"
  shows "found_inv s"
proof -
  from assms obtain hits where h: "search_by_query orc (expand_query orc q) = Some hits" "hits \<noteq> []"
    by (auto simp: start_search_def Let_def split: option.splits if_splits)
  show ?thesis
  proof (cases "score (hd hits) \<ge> DIRECT_MATCH_THRESHOLD")
    case True
    with assms h show ?thesis
      by (auto simp: start_search_def Let_def new_session_def found_inv_def direct_hit_def)
  next
    case False
    with assms h obtain t where "s = do_cluster orc t" "found_file t = None"
      by (auto simp: start_search_def Let_def new_session_def)
    then show ?thesis by (simp add: do_cluster_found_inv)
  qed
qed

lemma pick_found_inv:
  assumes "found_inv s"
  shows "found_inv (state_of (pick_cluster_endpoint orc s cid))"
proof (cases "pick_cluster_endpoint orc s cid")
  case (Raised e t)
  from pick_Raised [OF this] assms Raised show ?thesis by simp
next
  case (Done s')
  then have "status s = Clusters"
    by (auto simp: pick_cluster_endpoint_def split: if_splits)
  with assms have n: "found_file s = None" by (auto simp: found_inv_def)
  from Done obtain t where t: "s' = check_termination_or_recluster orc t" "found_file t = found_file s"
    by (rule pick_Done) (auto split: option.splits)
  with n Done show ?thesis by (simp add: check_found_inv)
qed

lemma help_found_inv:
  assumes "found_inv s"
  shows "found_inv (state_of (ask_for_help orc s))"
proof (cases "ask_for_help orc s")
  case (Raised e t)
  from help_Raised [OF this] assms Raised show ?thesis by simp
next
  case (Done s')
  then have "status s \<noteq> Found" by (auto simp: ask_for_help_def split: if_splits)
  with assms have "found_file s = None" by (rule found_inv_None)
  with help_Done [OF Done] Done show ?thesis by (simp add: found_inv_def)
qed

lemma found_inv_cong:
  assumes "found_inv s" "found_file t = found_file s" "status t = status s" "points t = points s"
    "round_no t = round_no s" "snapshots t = snapshots s"
  shows "found_inv t"
  using assms by (simp add: found_inv_def direct_hit_def unique_files_def)

lemma answer_found_inv:
  assumes "found_inv s"
  shows "found_inv (state_of (answer_followup_endpoint orc s a))"
proof (cases "answer_followup_endpoint orc s a")
  case (Raised e t)
  from answer_Raised [OF this] have "found_inv t"
  proof
    assume "t = s" with assms show ?thesis by simp
  next
    assume "\<exists>q. pending_question s = Some q \<and> e = EncodeError \<and>
               encode orc (join '' '' (map snd (conversation s @ [(q, a)]))) = None \<and>
               t = s\<lparr>conversation := conversation s @ [(q, a)], pending_question := None\<rparr>"
    then obtain q where "t = s\<lparr>conversation := conversation s @ [(q, a)], pending_question := None\<rparr>"
      by blast
    then show ?thesis by (intro found_inv_cong [OF assms]) simp_all
  qed
  with Raised show ?thesis by simp
next
  case (Done s')
  then have r: "answer_followup orc s a = Done s'" and "status s = Followup"
    by (auto simp: answer_followup_endpoint_def split: if_splits)
  with assms have n: "found_file s = None" by (auto simp: found_inv_def)
  from answer_followup_Done [OF r] obtain q kept where
    s': "s' = (if length (unique_files (answered s q a kept)) = 1
           then (answered s q a kept)\<lparr>found_file := Some (hd (unique_files (answered s q a kept))),
                  status := Found\<rparr>
           else if followup_count (answered s q a kept) \<ge> MAX_FOLLOWUP_QUESTIONS
           then check_termination_or_recluster orc (answered s q a kept)
           else if length (unique_files (answered s q a kept)) \<le> 3
           then check_termination_or_recluster orc (answered s q a kept)
           else generate_followup orc (answered s q a kept))"
    by blast
  define t where "t = answered s q a kept"
  note s' = s' [folded t_def]
  have t: "found_file t = None" using n by (simp add: t_def)
  have "found_inv s'"
  proof (cases "length (unique_files t) = 1")
    case True
    with singleton_hd [OF True] show ?thesis
      by (simp add: s' found_inv_def unique_files_def)
  next
    case False
    then have "s' = check_termination_or_recluster orc t \<or> s' = generate_followup orc t"
      by (simp add: s')
    then show ?thesis
    proof
      assume "s' = check_termination_or_recluster orc t"
      with t show ?thesis by (simp add: check_found_inv)
    next
      assume "s' = generate_followup orc t"
      with t show ?thesis by (simp add: found_inv_def)
    qed
  qed
  with Done show ?thesis by simp
qed

lemma backtrack_found_inv:
  assumes "found_inv s"
  shows "found_inv (state_of (backtrack_session orc s nid))"
proof (cases "backtrack_session orc s nid")
  case (Raised e t)
  from backtrack_session_Raised [OF this] assms Raised show ?thesis by simp
next
  case (Done s')
  then have b: "backtrack orc s nid = Done s'"
    by (auto simp: backtrack_session_def split: result.splits error.splits)
  then consider t where "s' = check_termination_or_recluster orc t" "found_file t = None"
    | t where "s' = do_cluster orc t" "found_file t = None"
    by (auto simp: backtrack_def Let_def split: option.splits prod.splits)
  then have "found_inv s'"
    by cases (simp_all add: check_found_inv do_cluster_found_inv)
  with Done show ?thesis by simp
qed

lemma reachable_found_inv: "reachable s \<Longrightarrow> found_inv s"
proof (induction rule: reachable.induct)
  case (r_start orc sid q s)
  then show ?case by (rule start_found_inv)
next
  case (r_step s orc ev)
  then show ?case
    by (cases ev) (simp_all add: pick_found_inv help_found_inv answer_found_inv backtrack_found_inv)
qed

subsection \<open>Runs\<close>

lemma is_Done_state_of: "is_Done r \<Longrightarrow> r = Done (state_of r)"
  by (cases r) auto

lemma started_Inr:
  assumes "search_by_query orc (expand_query orc ''flood report'') = Some hits" and "hits \<noteq> []"
  shows "start_search orc ''s1'' ''flood report'' = Inr (started orc)"
  using assms by (simp add: started_def start_search_def Let_def)

lemma narrow_sub: "mset (narrow pts lbls cid) \<subseteq># mset pts"
proof -
  have "mset (map fst (filter (\<lambda>(pt, lbl). lbl = cid) (zip pts lbls)))
          \<subseteq># mset (map fst (zip pts lbls))"
    unfolding mset_map mset_filter by (intro image_mset_subseteq_mono multiset_filter_subset)
  also have "map fst (zip pts lbls) = take (length lbls) pts"
    by (simp add: map_fst_zip_take min_def)
  also have "mset \<dots> \<subseteq># mset pts" by (rule mset_take_sub)
  finally show ?thesis by (simp add: narrow_def)
qed

lemma pick_sub: "mset (points (state_of (pick_cluster_endpoint orc s cid))) \<subseteq># mset (points s)"
proof (cases "pick_cluster_endpoint orc s cid")
  case (Done t)
  from pick_Done_points [OF Done] show ?thesis using Done narrow_sub by auto
next
  case (Raised e t)
  from pick_Raised [OF Raised] show ?thesis using Raised by simp
qed

lemma answer_sub:
  "mset (points (state_of (answer_followup_endpoint orc s a))) \<subseteq># mset (points s)"
proof (cases "answer_followup_endpoint orc s a")
  case (Done t)
  from answer_Done [OF Done] obtain q where
    "filter_by_followup orc (points s) (conversation s @ [(q, a)]) = Inr (points t)" by blast
  from filter_sub [OF this] show ?thesis using Done by simp
next
  case (Raised e t)
  from answer_Raised [OF Raised] show ?thesis using Raised by auto
qed

lemma run_narrowing_sub:
  "\<forall>ev \<in> set evs. narrowing ev \<Longrightarrow> mset (points (run orc s evs)) \<subseteq># mset (points s)"
proof (induction evs arbitrary: s)
  case Nil
  show ?case by simp
next
  case (Cons ev evs)
  have "mset (points (state_of (step orc s ev))) \<subseteq># mset (points s)"
    using Cons.prems by (cases ev) (simp_all add: pick_sub answer_sub)
  moreover have "mset (points (run orc (state_of (step orc s ev)) evs))
      \<subseteq># mset (points (state_of (step orc s ev)))"
    using Cons.prems by (intro Cons.IH) simp
  ultimately show ?case by (simp add: subset_mset.order_trans)
qed

lemma run_append: "run orc s (evs @ evs') = run orc (run orc s evs) evs'"
  by (induction evs arbitrary: s) simp_all

lemma reachable_run: "reachable s \<Longrightarrow> reachable (run orc s evs)"
  by (induction evs arbitrary: s) (simp_all add: r_step)

subsection \<open>Rounds and snapshots\<close>

lemma round_inv_cong:
  assumes "round_inv s" "round_no t = round_no s" "snapshots t = snapshots s"
    "nav_tree t = nav_tree s"
  shows "round_inv t"
  using assms by (simp add: round_inv_def)

lemma do_cluster_round_inv:
  assumes "round_inv s"
  shows "round_inv (do_cluster orc s)"
proof -
  have k: "fst ` set (snapshots (do_cluster orc s)) = {round_no s + 1} \<union> fst ` set (snapshots s)"
    by (simp add: do_cluster_eq clustered_def AList.dom_update)
  have r: "round_no (do_cluster orc s) = round_no s + 1"
    by (simp add: do_cluster_eq)
  have n: "n \<in> set (nav_tree s) \<or>
           (\<exists>cid lbl. n = cluster_node cid lbl (round_no s + 1) (current_nav_node s))"
    if "n \<in> set (nav_tree (do_cluster orc s))" for n
    using that by (auto simp: do_cluster_eq clustered_def split: if_splits)
  have c: "(nodeId n = ''root'' \<longrightarrow> nround n = 0) \<and> (clusterId n \<noteq> None \<longrightarrow> 1 \<le> nround n)"
    if "n \<in> set (nav_tree (do_cluster orc s))" for n
    using n [OF that] assms by (auto simp: round_inv_def cluster_node_def)
  from assms have "0 \<le> round_no s" "\<forall>k \<in> fst ` set (snapshots s). 1 \<le> k"
    by (simp_all add: round_inv_def)
  with c show ?thesis
    unfolding round_inv_def k r by auto
qed

lemma check_round_inv:
  assumes "round_inv s"
  shows "round_inv (check_termination_or_recluster orc s)"
  using assms do_cluster_round_inv [OF assms, of orc]
  by (auto simp: check_termination_or_recluster_def Let_def round_inv_def)

lemma mark_first_nodes:
  assumes "mark_first c ns = Some t" and "n \<in> set t"
  shows "\<exists>m \<in> set ns. nodeId n = nodeId m \<and> nround n = nround m \<and> clusterId n = clusterId m"
  using assms
proof (induction ns arbitrary: t)
  case Nil
  then show ?case by simp
next
  case (Cons e es)
  show ?case
  proof (cases "nodeId e = c")
    case True
    with Cons.prems show ?thesis by auto
  next
    case False
    with Cons.prems obtain t' where t': "mark_first c es = Some t'" "t = e # t'"
      by auto
    with Cons.prems Cons.IH [OF t'(1)] show ?thesis by auto
  qed
qed

lemma pick_round_inv:
  assumes "round_inv s"
  shows "round_inv (state_of (pick_cluster_endpoint orc s cid))"
proof (cases "pick_cluster_endpoint orc s cid")
  case (Raised e t)
  from pick_Raised [OF this] assms Raised show ?thesis by simp
next
  case (Done s')
  then obtain lbls where s': "s' = check_termination_or_recluster orc
           ((case mark_first (''c'' @ str_int cid @ ''-r'' @ str_int (round_no s)) (nav_tree s) of
               None \<Rightarrow> s
             | Some t \<Rightarrow> s\<lparr>nav_tree := t,
                  current_nav_node := Some (''c'' @ str_int cid @ ''-r'' @ str_int (round_no s))\<rparr>)
            \<lparr>points := narrow (points s) lbls cid\<rparr>)"
    by (rule pick_Done)
  have "round_inv ((case mark_first (''c'' @ str_int cid @ ''-r'' @ str_int (round_no s)) (nav_tree s) of
               None \<Rightarrow> s
             | Some t \<Rightarrow> s\<lparr>nav_tree := t,
                  current_nav_node := Some (''c'' @ str_int cid @ ''-r'' @ str_int (round_no s))\<rparr>)
            \<lparr>points := narrow (points s) lbls cid\<rparr>)"
  proof (cases "mark_first (''c'' @ str_int cid @ ''-r'' @ str_int (round_no s)) (nav_tree s)")
    case None
    with assms show ?thesis by (simp add: round_inv_def)
  next
    case (Some t)
    have "\<forall>n \<in> set t. (nodeId n = ''root'' \<longrightarrow> nround n = 0) \<and> (clusterId n \<noteq> None \<longrightarrow> 1 \<le> nround n)"
    proof
      fix n assume "n \<in> set t"
      from mark_first_nodes [OF Some this] obtain m where "m \<in> set (nav_tree s)"
        "nodeId n = nodeId m" "nround n = nround m" "clusterId n = clusterId m" by blast
      with assms show "(nodeId n = ''root'' \<longrightarrow> nround n = 0) \<and> (clusterId n \<noteq> None \<longrightarrow> 1 \<le> nround n)"
        by (simp add: round_inv_def)
    qed
    with assms Some show ?thesis by (simp add: round_inv_def)
  qed
  with s' Done show ?thesis by (simp add: check_round_inv)
qed

lemma help_round_inv:
  assumes "round_inv s"
  shows "round_inv (state_of (ask_for_help orc s))"
  using assms
  by (auto simp: ask_for_help_def start_followup_def generate_followup_def Let_def round_inv_def)

lemma answer_round_inv:
  assumes "round_inv s"
  shows "round_inv (state_of (answer_followup_endpoint orc s a))"
proof (cases "answer_followup_endpoint orc s a")
  case (Raised e t)
  from answer_Raised [OF this] assms have "round_inv t"
    by (auto simp: round_inv_def)
  with Raised show ?thesis by simp
next
  case (Done s')
  then have r: "answer_followup orc s a = Done s'"
    by (auto simp: answer_followup_endpoint_def split: if_splits)
  from answer_followup_Done [OF r] obtain q kept where
    s': "s' = (if length (unique_files (answered s q a kept)) = 1
           then (answered s q a kept)\<lparr>found_file := Some (hd (unique_files (answered s q a kept))),
                  status := Found\<rparr>
           else if followup_count (answered s q a kept) \<ge> MAX_FOLLOWUP_QUESTIONS
           then check_termination_or_recluster orc (answered s q a kept)
           else if length (unique_files (answered s q a kept)) \<le> 3
           then check_termination_or_recluster orc (answered s q a kept)
           else generate_followup orc (answered s q a kept))"
    by blast
  have t: "round_inv (answered s q a kept)"
    using assms by (simp add: round_inv_def)
  have g: "round_inv (generate_followup orc (answered s q a kept))"
    using t by (simp add: round_inv_def generate_followup_def Let_def)
  have f: "round_inv ((answered s q a kept)\<lparr>found_file := x, status := y\<rparr>)" for x y
    using t by (simp add: round_inv_def)
  from t g f check_round_inv [OF t, of orc] have "round_inv s'"
    by (simp add: s')
  with Done show ?thesis by simp
qed

lemma backtrack_round_inv:
  assumes "round_inv s"
  shows "round_inv (state_of (backtrack_session orc s nid))"
proof (cases "backtrack_session orc s nid")
  case (Raised e t)
  from backtrack_session_Raised [OF this] assms Raised show ?thesis by simp
next
  case (Done s')
  then have b: "backtrack orc s nid = Done s'"
    by (auto simp: backtrack_session_def split: result.splits error.splits)
  then obtain target where tg: "find (\<lambda>e. nodeId e = nid) (nav_tree s) = Some target"
    by (auto simp: backtrack_def split: option.splits)
  then have tin: "target \<in> set (nav_tree s)"
    by (auto simp: find_Some_iff)
  from b tg obtain sp sc sf where sn: "map_of (snapshots s) (nround target) = Some (sp, sc, sf)"
    by (auto simp: backtrack_def Let_def split: option.splits)
  define s5 where "s5 = s\<lparr>points := sp, conversation := sc, followup_count := sf,
      found_file := None, pending_question := None,
      nav_tree := map (\<lambda>e. if nround e = nround target \<and> parentNodeId e = parentNodeId target
                              then e\<lparr>isOnPath := (nodeId e = nid)\<rparr> else e)
                      (filter (\<lambda>e. nround e \<le> nround target) (nav_tree s)),
      current_nav_node := Some nid,
      snapshots := filter (\<lambda>(r, snap). \<not> r > nround target) (snapshots s)\<rparr>"
  have i5: "round_inv (s5\<lparr>round_no := r\<rparr>)" if "0 \<le> r" for r
    using assms that by (auto simp: round_inv_def s5_def)
  have s': "s' = (case clusterId target of
        Some cid \<Rightarrow> check_termination_or_recluster orc
           (s5\<lparr>round_no := nround target - 1,
               labels := Some (cluster_vectors orc (map vector sp)),
               points := narrow sp (cluster_vectors orc (map vector sp)) cid\<rparr>)
      | None \<Rightarrow> do_cluster orc (s5\<lparr>round_no := 0\<rparr>))"
    using b tg sn by (simp add: backtrack_def Let_def s5_def split: option.splits)
  show ?thesis
  proof (cases "clusterId target")
    case None
    with s' i5 [of 0] Done show ?thesis by (simp add: do_cluster_round_inv)
  next
    case (Some cid)
    with tin assms have "1 \<le> nround target" by (auto simp: round_inv_def)
    then have "round_inv (s5\<lparr>round_no := nround target - 1\<rparr>)" by (intro i5) simp
    then have "round_inv (s5\<lparr>round_no := nround target - 1,
               labels := Some (cluster_vectors orc (map vector sp)),
               points := narrow sp (cluster_vectors orc (map vector sp)) cid\<rparr>)"
      by (simp add: round_inv_def)
    from check_round_inv [OF this] s' Some Done show ?thesis by simp
  qed
qed

lemma start_round_inv:
  assumes "start_search orc sid q = Inr s"
  shows "round_inv s"
proof -
  from assms obtain hits where h: "search_by_query orc (expand_query orc q) = Some hits" "hits \<noteq> []"
    by (auto simp: start_search_def Let_def split: option.splits if_splits)
  define t where "t = (new_session sid q (expand_query orc q) hits)
     \<lparr>nav_tree := [root_node q], current_nav_node := Some ''root''\<rparr>"
  have it: "round_inv t" by (simp add: t_def round_inv_def new_session_def root_node_def)
  have "s = t\<lparr>found_file := Some (pfile (hd hits)), status := Found\<rparr> \<or> s = do_cluster orc t"
    using assms h by (auto simp: start_search_def Let_def t_def new_session_def split: if_splits)
  then show ?thesis
  proof
    assume "s = t\<lparr>found_file := Some (pfile (hd hits)), status := Found\<rparr>"
    with it show ?thesis by (simp add: round_inv_def)
  next
    assume "s = do_cluster orc t"
    with it show ?thesis by (simp add: do_cluster_round_inv)
  qed
qed

lemma reachable_round_inv: "reachable s \<Longrightarrow> round_inv s"
proof (induction rule: reachable.induct)
  case (r_start orc sid q s)
  then show ?case by (rule start_round_inv)
next
  case (r_step s orc ev)
  then show ?case
    by (cases ev) (simp_all add: pick_round_inv help_round_inv answer_round_inv backtrack_round_inv)
qed

lemma backtrack_root_raises:
  assumes "reachable s"
  shows "backtrack_session orc s ''root'' = Raised (HTTPException 400) s"
proof (cases "find (\<lambda>n. nodeId n = ''root'') (nav_tree s)")
  case None
  then show ?thesis by (rule backtrack_unknown)
next
  case (Some target)
  then have "target \<in> set (nav_tree s)" "nodeId target = ''root''"
    by (auto simp: find_Some_iff)
  with reachable_round_inv [OF assms] have "nround target = 0" "0 \<notin> fst ` set (snapshots s)"
    by (auto simp: round_inv_def)
  then have "map_of (snapshots s) (nround target) = None"
    by (simp add: map_of_eq_None_iff)
  with Some show ?thesis by (rule backtrack_no_snapshot)
qed

subsection \<open>The cap on the number of clusters\<close>







lemma np_unique_set [simp]: "set (np_unique ls) = {l \<in> set ls. 0 \<le> l}"
  by (auto simp: np_unique_def)

lemma np_unique_distinct [simp]: "distinct (np_unique ls)"
  by (simp add: np_unique_def)


lemma length_np_counts [simp]: "length (np_counts ls) = length (np_unique ls)"
  by (simp add: np_counts_def)

lemma set_argsort [simp]: "set (stable_argsort ks) = {0..<length ks}"
  by (simp add: stable_argsort_def)

lemma mset_ranked: "mset (ranked ls) = mset (np_unique ls)"
proof -
  have "mset (ranked ls) = image_mset (\<lambda>i. np_unique ls ! i) (mset [0..<length (np_unique ls)])"
    by (simp add: ranked_def stable_argsort_def)
  also have "\<dots> = mset (map (\<lambda>i. np_unique ls ! i) [0..<length (np_unique ls)])"
    by simp
  also have "\<dots> = mset (np_unique ls)"
    by (simp only: map_nth)
  finally show ?thesis .
qed

lemma set_ranked [simp]: "set (ranked ls) = {l \<in> set ls. 0 \<le> l}"
  using mset_eq_setD [OF mset_ranked, of ls] by simp


lemma length_ranked [simp]: "length (ranked ls) = length (np_unique ls)"
  using mset_eq_length [OF mset_ranked, of ls] by simp











lemma length_take_ranked:
  assumes "length (np_unique ls) > MAX_CLUSTERS"
  shows "length (take MAX_CLUSTERS (ranked ls)) = MAX_CLUSTERS"
  using assms by simp










section \<open>The claims\<close>

text \<open>
  Claim C8 (direct match). When the retrieval of \<^verbatim>\<open>start_search\<close> returns a non-empty list
  of hits whose first hit has a fused score of at least \<open>DIRECT_MATCH_THRESHOLD\<close>, the
  session is created with status \<open>Found\<close>, its \<open>found_file\<close> is the first hit's file, its
  round is 0 and nothing has been clustered: there are no labels, no cluster labels, files
  or sizes and no snapshot, and the serialised session says the same.
\<close>

theorem direct_match:
  assumes "search_by_query orc (expand_query orc q) = Some hits" and "hits \<noteq> []"
    and "score (hd hits) \<ge> DIRECT_MATCH_THRESHOLD"
  shows "\<exists>s. start_search orc sid q = Inr s \<and> status s = Found \<and>
             found_file s = Some (pfile (hd hits)) \<and> round_no s = 0 \<and> points s = hits \<and>
             labels s = None \<and> cluster_labels s = [] \<and> cluster_files s = [] \<and>
             cluster_sizes s = [] \<and> snapshots s = [] \<and>
             v_status (to_dict s) = Found \<and> v_found_file (to_dict s) = Some (Some (pfile (hd hits))) \<and>
             v_round (to_dict s) = 0 \<and> v_clusters (to_dict s) = None"
  using assms by (simp add: start_search_def Let_def new_session_def to_dict_def)

theorem direct_match_witness:
  "\<exists>s. start_search (noise_oracles direct_hits) ''s1'' ''flood report'' = Inr s \<and>
       status s = Found \<and> found_file s = Some ''X.pdf'' \<and> round_no s = 0 \<and>
       labels s = None \<and> snapshots s = []"
proof -
  have h1: "search_by_query (noise_oracles direct_hits)
              (expand_query (noise_oracles direct_hits) ''flood report'') = Some direct_hits"
    by (simp add: noise_oracles_def)
  have h2: "direct_hits \<noteq> []"
    by (simp add: direct_hits_def)
  have h3: "score (hd direct_hits) \<ge> DIRECT_MATCH_THRESHOLD"
    by (simp add: direct_hits_def mk_point_def DIRECT_MATCH_THRESHOLD_def)
  have h4: "pfile (hd direct_hits) = ''X.pdf''"
    by (simp add: direct_hits_def mk_point_def)
  from direct_match [OF h1 h2 h3, of "''s1''"] obtain s where
    "start_search (noise_oracles direct_hits) ''s1'' ''flood report'' = Inr s"
    "status s = Found" "found_file s = Some (pfile (hd direct_hits))" "round_no s = 0"
    "labels s = None" "snapshots s = []"
    by blast
  with h4 show ?thesis by simp
qed

text \<open>
  Claim C10 (a follow-up session has a question). Whenever \<^verbatim>\<open>start_search\<close>, pick, help,
  answer or backtrack completes without raising and leaves the status \<open>Followup\<close>, the
  pending question is the string \<^verbatim>\<open>_ask_followup_question\<close> returned for the pool, the
  conversation and the question number the session has at that moment; when the chat model
  fails there, it is the fixed fallback question.
\<close>

theorem followup_has_pending_question:
  assumes "start_search orc sid q = Inr s' \<or> pick_cluster_endpoint orc s cid = Done s' \<or>
           ask_for_help orc s = Done s' \<or> answer_followup_endpoint orc s a = Done s' \<or>
           backtrack_session orc s nid = Done s'"
    and "status s' = Followup"
  shows "pending_question s' =
           Some (ask_followup_question orc (build_file_summaries (points s')) (conversation s')
                   (followup_count s' + 1)) \<and>
         (chat_followup orc (build_file_summaries (points s')) (conversation s')
              (followup_count s' + 1) = None \<longrightarrow>
          pending_question s' = Some fallback_question)"
proof -
  have p: "pending_question s' =
           Some (ask_followup_question orc (build_file_summaries (points s')) (conversation s')
                   (followup_count s' + 1))"
    using assms(1)
  proof (elim disjE)
    assume "start_search orc sid q = Inr s'"
    then show ?thesis using assms(2) by (rule start_followup_pending)
  next
    assume "pick_cluster_endpoint orc s cid = Done s'"
    then show ?thesis using assms(2) by (rule pick_Done_followup)
  next
    assume "ask_for_help orc s = Done s'"
    from help_Done [OF this] show ?thesis by simp
  next
    assume "answer_followup_endpoint orc s a = Done s'"
    from answer_Done [OF this] show ?thesis using assms(2) by blast
  next
    assume "backtrack_session orc s nid = Done s'"
    then show ?thesis using assms(2) by (rule backtrack_Done_followup)
  qed
  then show ?thesis by (auto simp: ask_followup_question_def)
qed

theorem followup_has_pending_question_witness:
  "status (started (noise_oracles (scattered 20))) = Followup \<and>
   pending_question (started (noise_oracles (scattered 20))) = Some fallback_question"
proof -
  let ?orc = "noise_oracles (scattered 20)"
  have a: "start_search ?orc ''s1'' ''flood report'' = Inr (started ?orc)"
    by (rule started_Inr [of _ "scattered 20"]) (simp_all add: noise_oracles_def scattered_def)
  have b: "status (started ?orc) = Followup"
    by code_simp
  have c: "chat_followup ?orc (build_file_summaries (points (started ?orc)))
             (conversation (started ?orc)) (followup_count (started ?orc) + 1) = None"
    by (simp add: noise_oracles_def)
  from followup_has_pending_question [of ?orc "''s1''" "''flood report''" "started ?orc",
      OF disjI1 [OF a] b] b c
  show ?thesis by blast
qed

text \<open>
  Claim C6 (termination check after narrowing). After a pick or an answer that completes,
  with \<open>F\<close> the number of unique files in the narrowed pool and \<open>N\<close> its size: if \<open>F = 1\<close>
  the status is \<open>Found\<close> and \<open>found_file\<close> is that file; otherwise, if \<open>N < 3\<close>, the status
  is \<open>Exhausted\<close> and the serialised session carries the remaining files.
\<close>

theorem narrowing_then_termination:
  assumes "pick_cluster_endpoint orc s cid = Done s' \<or> answer_followup_endpoint orc s a = Done s'"
  shows "(length (unique_files s') = 1 \<longrightarrow>
            status s' = Found \<and> found_file s' = Some (hd (unique_files s'))) \<and>
         (length (unique_files s') \<noteq> 1 \<longrightarrow> length (points s') < 3 \<longrightarrow>
            status s' = Exhausted \<and> v_remaining_files (to_dict s') = Some (unique_files s'))"
  using assms
proof
  assume "pick_cluster_endpoint orc s cid = Done s'"
  then obtain t where s': "s' = check_termination_or_recluster orc t" by (rule pick_Done)
  show ?thesis
    unfolding s' using check_found [of t orc] check_exhausted [of t orc]
    by (auto simp: to_dict_remaining)
next
  assume "answer_followup_endpoint orc s a = Done s'"
  from answer_Done [OF this] show ?thesis by (auto simp: to_dict_remaining)
qed

theorem narrowing_then_termination_witness:
  "status (state_of (pick_cluster_endpoint (halving_oracles two_files)
      (started (halving_oracles two_files)) 0)) = Found \<and>
   status (state_of (answer_followup_endpoint (noise_oracles (scattered 2))
      (started (noise_oracles (scattered 2))) ''yes'')) = Exhausted"
proof -
  let ?h = "halving_oracles two_files" and ?n = "noise_oracles (scattered 2)"
  let ?p = "pick_cluster_endpoint ?h (started ?h) 0"
  let ?a = "answer_followup_endpoint ?n (started ?n) ''yes''"
  have "is_Done ?p" by code_simp
  then have p: "?p = Done (state_of ?p)" by (rule is_Done_state_of)
  have pf: "length (unique_files (state_of ?p)) = 1" by code_simp
  have "is_Done ?a" by code_simp
  then have a: "?a = Done (state_of ?a)" by (rule is_Done_state_of)
  have af: "length (unique_files (state_of ?a)) \<noteq> 1" "length (points (state_of ?a)) < 3"
    by code_simp+
  from narrowing_then_termination [OF disjI1 [OF p]] pf
    narrowing_then_termination [OF disjI2 [OF a]] af
  show ?thesis by simp
qed

text \<open>
  Claim C9 (the pool never grows). A pick that completes keeps exactly the chunks whose
  label is the chosen cluster id; an answer that completes keeps what the follow-up filter
  returned, a sub-multiset of the pool; and along any sequence of picks and answers,
  completed or not, the pool after a longer prefix is a sub-multiset of the pool after a
  shorter one, so its size never increases.
\<close>

theorem pool_never_grows:
  "(pick_cluster_endpoint orc s cid = Done s' \<longrightarrow>
      (\<exists>lbls. labels s = Some lbls \<and>
         points s' = map fst (filter (\<lambda>(pt, lbl). lbl = cid) (zip (points s) lbls)))) \<and>
   (answer_followup_endpoint orc s a = Done s' \<longrightarrow>
      (\<exists>q. pending_question s = Some q \<and>
         filter_by_followup orc (points s) (conversation s @ [(q, a)]) = Inr (points s') \<and>
         mset (points s') \<subseteq># mset (points s))) \<and>
   ((\<forall>ev \<in> set evs'. narrowing ev) \<longrightarrow>
      mset (points (run orc s (evs @ evs'))) \<subseteq># mset (points (run orc s evs)) \<and>
      length (points (run orc s (evs @ evs'))) \<le> length (points (run orc s evs)))"
proof (intro conjI impI)
  assume "pick_cluster_endpoint orc s cid = Done s'"
  from pick_Done_points [OF this]
  show "\<exists>lbls. labels s = Some lbls \<and>
         points s' = map fst (filter (\<lambda>(pt, lbl). lbl = cid) (zip (points s) lbls))"
    by (simp add: narrow_def)
next
  assume d: "answer_followup_endpoint orc s a = Done s'"
  from answer_Done [OF d] obtain q where q: "pending_question s = Some q"
    "filter_by_followup orc (points s) (conversation s @ [(q, a)]) = Inr (points s')"
    by blast
  from filter_sub [OF q(2)] q
  show "\<exists>q. pending_question s = Some q \<and>
         filter_by_followup orc (points s) (conversation s @ [(q, a)]) = Inr (points s') \<and>
         mset (points s') \<subseteq># mset (points s)"
    by blast
next
  assume n: "\<forall>ev \<in> set evs'. narrowing ev"
  then show m: "mset (points (run orc s (evs @ evs'))) \<subseteq># mset (points (run orc s evs))"
    unfolding run_append by (rule run_narrowing_sub)
  from size_mset_mono [OF run_narrowing_sub [OF n, of orc "run orc s evs"]]
  show "length (points (run orc s (evs @ evs'))) \<le> length (points (run orc s evs))"
    by (simp add: run_append)
qed

theorem pool_never_grows_witness:
  "length (points (run (halving_oracles (scattered 20)) (started (halving_oracles (scattered 20)))
      ([Pick 0] @ [Pick 1, Answer ''yes'']))) \<le>
   length (points (run (halving_oracles (scattered 20)) (started (halving_oracles (scattered 20)))
      [Pick 0]))"
proof -
  have n: "\<forall>ev \<in> set [Pick 1, Answer ''yes'']. narrowing ev" by simp
  from pool_never_grows [of "halving_oracles (scattered 20)" _ _ _ _ "[Pick 1, Answer ''yes'']"
      "[Pick 0]"] n
  show ?thesis by blast
qed

text \<open>
  Claim C5 (failed operations), as the code has it. A pick, a help or a backtrack that
  raises leaves the session as it was; a backtrack to a node the tree does not have, or to
  a node whose round has no snapshot, raises (HTTP 400). An answer that raises leaves the
  session as it was when a guard rejected it; when its embedding call raised, the
  question and the answer have already been appended to the conversation and the pending
  question cleared, and nothing else has changed.
\<close>

theorem failed_operation_state:
  "(pick_cluster_endpoint orc s cid = Raised e s' \<longrightarrow> s' = s) \<and>
   (ask_for_help orc s = Raised e s' \<longrightarrow> s' = s) \<and>
   (backtrack_session orc s nid = Raised e s' \<longrightarrow> s' = s) \<and>
   (find (\<lambda>n. nodeId n = nid) (nav_tree s) = None \<longrightarrow>
      backtrack_session orc s nid = Raised (HTTPException 400) s) \<and>
   (\<forall>target. find (\<lambda>n. nodeId n = nid) (nav_tree s) = Some target \<and>
      map_of (snapshots s) (nround target) = None \<longrightarrow>
      backtrack_session orc s nid = Raised (HTTPException 400) s) \<and>
   (answer_followup_endpoint orc s a = Raised e s' \<longrightarrow>
      s' = s \<or>
      (\<exists>q. pending_question s = Some q \<and> e = EncodeError \<and>
            encode orc (join '' '' (map snd (conversation s @ [(q, a)]))) = None \<and>
            s' = s\<lparr>conversation := conversation s @ [(q, a)], pending_question := None\<rparr>))"
proof (intro conjI impI allI)
  assume "pick_cluster_endpoint orc s cid = Raised e s'"
  then show "s' = s" by (rule pick_Raised)
next
  assume "ask_for_help orc s = Raised e s'"
  then show "s' = s" by (rule help_Raised)
next
  assume "backtrack_session orc s nid = Raised e s'"
  then show "s' = s" by (rule backtrack_session_Raised)
next
  assume "find (\<lambda>n. nodeId n = nid) (nav_tree s) = None"
  then show "backtrack_session orc s nid = Raised (HTTPException 400) s"
    by (rule backtrack_unknown)
next
  fix target
  assume "find (\<lambda>n. nodeId n = nid) (nav_tree s) = Some target \<and>
      map_of (snapshots s) (nround target) = None"
  then show "backtrack_session orc s nid = Raised (HTTPException 400) s"
    using backtrack_no_snapshot by blast
next
  assume "answer_followup_endpoint orc s a = Raised e s'"
  then show "s' = s \<or>
      (\<exists>q. pending_question s = Some q \<and> e = EncodeError \<and>
            encode orc (join '' '' (map snd (conversation s @ [(q, a)]))) = None \<and>
            s' = s\<lparr>conversation := conversation s @ [(q, a)], pending_question := None\<rparr>)"
    by (rule answer_Raised)
qed

theorem failed_operation_state_witness:
  "backtrack_session (noise_oracles (scattered 20)) (started (noise_oracles (scattered 20)))
      ''c7-r9'' =
     Raised (HTTPException 400) (started (noise_oracles (scattered 20)))"
proof -
  have "find (\<lambda>n. nodeId n = ''c7-r9'') (nav_tree (started (noise_oracles (scattered 20)))) = None"
    by code_simp
  with failed_operation_state [of "noise_oracles (scattered 20)"
      "started (noise_oracles (scattered 20))" _ _ _ "''c7-r9''"]
  show ?thesis by blast
qed

theorem failed_answer_counterexample:
  "\<not> is_Done (answer_followup_endpoint (deaf_oracles (scattered 20))
        (started (deaf_oracles (scattered 20))) ''yes'') \<and>
   conversation (state_of (answer_followup_endpoint (deaf_oracles (scattered 20))
        (started (deaf_oracles (scattered 20))) ''yes'')) \<noteq>
     conversation (started (deaf_oracles (scattered 20))) \<and>
   pending_question (state_of (answer_followup_endpoint (deaf_oracles (scattered 20))
        (started (deaf_oracles (scattered 20))) ''yes'')) \<noteq>
     pending_question (started (deaf_oracles (scattered 20)))"
  by code_simp

text \<open>
  Claim C4 (size of the filtered pool), as the code has it. When the embedding call
  succeeds, the follow-up filter returns a pool: all \<open>N\<close> chunks when \<open>N < 6\<close>, and the
  \<open>N div 2\<close> best (rounded down) otherwise. So it never returns fewer than three chunks
  unless it was given fewer than three.
\<close>

theorem filter_by_followup_length:
  assumes "encode orc (join '' '' (map snd conv)) = Some context_vec"
  shows "\<exists>kept. filter_by_followup orc pts conv = Inr kept \<and>
           length kept = (if length pts < 6 then length pts else length pts div 2) \<and>
           (3 \<le> length pts \<longrightarrow> 3 \<le> length kept) \<and>
           (length pts < 3 \<longrightarrow> length kept = length pts)"
proof -
  have "\<exists>kept. filter_by_followup orc pts conv = Inr kept"
    using assms unfolding filter_by_followup_def Let_def by (simp split: if_split)
  then obtain kept where k: "filter_by_followup orc pts conv = Inr kept" ..
  from filter_len [OF k] k show ?thesis by auto
qed

theorem filter_by_followup_length_witness:
  "\<exists>kept. filter_by_followup (noise_oracles []) (scattered 8) [(''which year?'', ''2019'')] = Inr kept \<and>
          length kept = 4"
proof -
  have e: "encode (noise_oracles []) (join '' '' (map snd [(''which year?'', ''2019'')])) = Some [1]"
    by (simp add: noise_oracles_def)
  from filter_by_followup_length [OF e, of "scattered 8"] obtain kept where
    "filter_by_followup (noise_oracles []) (scattered 8) [(''which year?'', ''2019'')] = Inr kept"
    "length kept = (if length (scattered 8) < 6 then length (scattered 8)
                    else length (scattered 8) div 2)"
    by blast
  moreover have "length (scattered 8) = 8" by (simp add: scattered_def)
  ultimately show ?thesis by simp
qed

theorem filter_by_followup_length_counterexample:
  "\<not> isl (filter_by_followup (noise_oracles []) (scattered 4) [(''which year?'', ''2019'')]) \<and>
   length (projr (filter_by_followup (noise_oracles []) (scattered 4)
       [(''which year?'', ''2019'')])) = 4 \<and>
   max ((4 + 1) div 2) (min 3 4) = (3::nat) \<and>
   \<not> isl (filter_by_followup (noise_oracles []) (scattered 7) [(''which year?'', ''2019'')]) \<and>
   length (projr (filter_by_followup (noise_oracles []) (scattered 7)
       [(''which year?'', ''2019'')])) = 3 \<and>
   max ((7 + 1) div 2) (min 3 7) = (4::nat)"
  by code_simp

text \<open>
  Claim C1 (the found file), as the code has it. In every session the endpoints can
  produce, \<open>found_file\<close> is set exactly when the status is \<open>Found\<close>. In status \<open>Found\<close>,
  either the pool holds exactly one unique file and \<open>found_file\<close> is that file, or the
  session is a direct match of \<^verbatim>\<open>start_search\<close> (round 0, no snapshot, a top hit at or
  above the threshold) and \<open>found_file\<close> is the top hit's file, whatever other files the
  pool holds. A pool of one file does not make a session \<open>Found\<close>: \<^verbatim>\<open>start_search\<close>
  clusters such a pool when its top hit is below the threshold.
\<close>

theorem found_file_iff_found:
  assumes "reachable s"
  shows "(found_file s \<noteq> None \<longleftrightarrow> status s = Found) \<and>
         (status s = Found \<longrightarrow>
            (\<exists>f. unique_files s = [f] \<and> found_file s = Some f) \<or>
            (round_no s = 0 \<and> snapshots s = [] \<and> points s \<noteq> [] \<and>
             DIRECT_MATCH_THRESHOLD \<le> score (hd (points s)) \<and>
             found_file s = Some (pfile (hd (points s)))))"
  using reachable_found_inv [OF assms] by (simp add: found_inv_def direct_hit_def)

theorem found_file_iff_found_witness:
  "reachable (run (halving_oracles two_files) (started (halving_oracles two_files)) [Pick 0]) \<and>
   found_file (run (halving_oracles two_files) (started (halving_oracles two_files)) [Pick 0])
     \<noteq> None"
proof -
  let ?h = "halving_oracles two_files"
  have "start_search ?h ''s1'' ''flood report'' = Inr (started ?h)"
    by (rule started_Inr [of _ two_files])
      (simp_all add: halving_oracles_def noise_oracles_def two_files_def)
  then have "reachable (started ?h)" by (rule r_start)
  then have r: "reachable (run ?h (started ?h) [Pick 0])" by (rule reachable_run)
  have "status (run ?h (started ?h) [Pick 0]) = Found" by code_simp
  with found_file_iff_found [OF r] r show ?thesis by blast
qed

theorem found_file_iff_found_counterexample:
  "start_search (noise_oracles direct_hits) ''s1'' ''flood report'' =
     Inr (started (noise_oracles direct_hits)) \<and>
   status (started (noise_oracles direct_hits)) = Found \<and>
   found_file (started (noise_oracles direct_hits)) = Some ''X.pdf'' \<and>
   unique_files (started (noise_oracles direct_hits)) = [''X.pdf'', ''Y.pdf''] \<and>
   start_search (noise_oracles one_file) ''s1'' ''flood report'' =
     Inr (started (noise_oracles one_file)) \<and>
   unique_files (started (noise_oracles one_file)) = [''A.pdf''] \<and>
   status (started (noise_oracles one_file)) = Followup \<and>
   found_file (started (noise_oracles one_file)) = None"
proof -
  have "start_search (noise_oracles direct_hits) ''s1'' ''flood report'' =
     Inr (started (noise_oracles direct_hits))"
    by (rule started_Inr [of _ direct_hits]) (simp_all add: noise_oracles_def direct_hits_def)
  moreover have "status (started (noise_oracles direct_hits)) = Found \<and>
   found_file (started (noise_oracles direct_hits)) = Some ''X.pdf'' \<and>
   unique_files (started (noise_oracles direct_hits)) = [''X.pdf'', ''Y.pdf'']"
    by code_simp
  moreover have "start_search (noise_oracles one_file) ''s1'' ''flood report'' =
     Inr (started (noise_oracles one_file))"
    by (rule started_Inr [of _ one_file]) (simp_all add: noise_oracles_def one_file_def)
  moreover have "unique_files (started (noise_oracles one_file)) = [''A.pdf''] \<and>
   status (started (noise_oracles one_file)) = Followup \<and>
   found_file (started (noise_oracles one_file)) = None"
    by code_simp
  ultimately show ?thesis by simp
qed

text \<open>
  Claim C3 (at most three follow-up questions) fails on the code. The help endpoint
  refuses a fourth question, but \<^verbatim>\<open>do_cluster\<close> asks one whenever the clusterer finds no
  cluster, whatever the count. Twenty hits from twenty files that do not cluster: the
  session starts in follow-up mode, and after four answers \<open>followup_count\<close> is 4, which
  the serialised session reports next to \<open>max_followups = 3\<close>.
\<close>

theorem followup_count_exceeds_max:
  "status (started (noise_oracles (scattered 20))) = Followup \<and>
   followup_count (run (noise_oracles (scattered 20)) (started (noise_oracles (scattered 20)))
      [Answer ''a'', Answer ''b'', Answer ''c'', Answer ''d'']) = 4 \<and>
   v_followup_count (to_dict (run (noise_oracles (scattered 20))
      (started (noise_oracles (scattered 20)))
      [Answer ''a'', Answer ''b'', Answer ''c'', Answer ''d''])) = Some 4 \<and>
   v_max_followups (to_dict (run (noise_oracles (scattered 20))
      (started (noise_oracles (scattered 20)))
      [Answer ''a'', Answer ''b'', Answer ''c'', Answer ''d''])) = Some 3"
  by code_simp

text \<open>
  Claim C2 (backtrack to the root) fails on the code. \<^verbatim>\<open>do_cluster\<close> increments the round
  before it takes the snapshot, so snapshots are keyed from 1 and there is never one for
  round 0, the round of the root node; \<^verbatim>\<open>backtrack\<close> then raises before it reaches its
  own branch for the root. Twenty hits that split into two clusters of ten, and those into
  two of five: after a pick at round 1 and a pick at round 2 the snapshots are those of
  rounds 1, 2 and 3, and the backtrack to \<^verbatim>\<open>root\<close> is answered with HTTP 400 and leaves
  the session as it was. By \<open>backtrack_root_raises\<close> the same holds in every session.
\<close>

theorem backtrack_to_root_raises:
  "status (started (halving_oracles (scattered 20))) = Clusters \<and>
   round_no (started (halving_oracles (scattered 20))) = 1 \<and>
   is_Done (step (halving_oracles (scattered 20)) (started (halving_oracles (scattered 20))) (Pick 0)) \<and>
   round_no (run (halving_oracles (scattered 20)) (started (halving_oracles (scattered 20)))
      [Pick 0]) = 2 \<and>
   is_Done (step (halving_oracles (scattered 20))
      (run (halving_oracles (scattered 20)) (started (halving_oracles (scattered 20))) [Pick 0])
      (Pick 1)) \<and>
   map fst (snapshots (run (halving_oracles (scattered 20))
      (started (halving_oracles (scattered 20))) [Pick 0, Pick 1])) = [1, 2, 3] \<and>
   backtrack_session (halving_oracles (scattered 20))
      (run (halving_oracles (scattered 20)) (started (halving_oracles (scattered 20)))
         [Pick 0, Pick 1]) ''root'' =
     Raised (HTTPException 400)
      (run (halving_oracles (scattered 20)) (started (halving_oracles (scattered 20)))
         [Pick 0, Pick 1])"
proof -
  let ?h = "halving_oracles (scattered 20)"
  have "start_search ?h ''s1'' ''flood report'' = Inr (started ?h)"
    by (rule started_Inr [of _ "scattered 20"])
      (simp_all add: halving_oracles_def noise_oracles_def scattered_def)
  then have "reachable (started ?h)" by (rule r_start)
  then have "reachable (run ?h (started ?h) [Pick 0, Pick 1])" by (rule reachable_run)
  then have b: "backtrack_session ?h (run ?h (started ?h) [Pick 0, Pick 1]) ''root'' =
     Raised (HTTPException 400) (run ?h (started ?h) [Pick 0, Pick 1])"
    by (rule backtrack_root_raises)
  have 1: "status (started ?h) = Clusters \<and> round_no (started ?h) = 1" by code_simp
  have 2: "is_Done (step ?h (started ?h) (Pick 0)) \<and> round_no (run ?h (started ?h) [Pick 0]) = 2"
    by code_simp
  have 3: "is_Done (step ?h (run ?h (started ?h) [Pick 0]) (Pick 1)) \<and>
     map fst (snapshots (run ?h (started ?h) [Pick 0, Pick 1])) = [1, 2, 3]"
    by code_simp
  from b 1 2 3 show ?thesis by blast
qed



text \<open>With an argsort that returns equal counts in reverse index order, the same labels
  keep cluster 4 and drop cluster 1.\<close>

lemma reversed_ties:
  "cluster_vectors reversing_oracles (map vector (scattered 13)) =
     [0, 0, 0, - 1, - 1, 1, 1, 2, 2, 2, 3, 3, - 1]"
  by code_simp

end
